theory Spec2Isabelle
  imports Complex_Main
begin

section \<open>Strings as the Python code uses them\<close>

text \<open>
  The program reads lines with \<^verbatim>\<open>input()\<close> and treats them with \<^verbatim>\<open>str.strip\<close>,
  \<^verbatim>\<open>str.lower\<close>, \<^verbatim>\<open>str.split(',')\<close> and \<^verbatim>\<open>int\<close>. A string is a list of
  8-bit characters here, so the functions below are the ASCII part of the Python ones.
\<close>

definition is_space :: "char \<Rightarrow> bool" where
  "is_space c = (c \<in> set [CHR '' '', CHR 0x09, CHR 0x0A, CHR 0x0B, CHR 0x0C, CHR 0x0D,
                           CHR 0x1C, CHR 0x1D, CHR 0x1E, CHR 0x1F])"

definition strip :: "string \<Rightarrow> string" where
  "strip s = rev (dropWhile is_space (rev (dropWhile is_space s)))"

definition lower_char :: "char \<Rightarrow> char" where
  "lower_char c =
     (let n = (of_char c :: nat) in if 65 \<le> n \<and> n \<le> 90 then char_of (n + 32) else c)"

definition lower :: "string \<Rightarrow> string" where
  "lower s = map lower_char s"

text \<open>\<^verbatim>\<open>s.split(',')\<close>: always at least one piece, empty pieces are kept.\<close>

fun split_comma :: "string \<Rightarrow> string list" where
  "split_comma [] = [ [] ]"
| "split_comma (c # cs) =
     (if c = CHR '','' then [] # split_comma cs
      else (case split_comma cs of [] \<Rightarrow> [ [c] ] | p # ps \<Rightarrow> (c # p) # ps))"

definition digit :: "char \<Rightarrow> nat option" where
  "digit c = (let n = (of_char c :: nat) in if 48 \<le> n \<and> n \<le> 57 then Some (n - 48) else None)"

text \<open>
  \<^verbatim>\<open>int(s)\<close> on a string: surrounding white space is dropped, then an optional sign,
  then decimal digits, where one underscore may stand between two digits. \<open>None\<close> is
  the \<^verbatim>\<open>ValueError\<close>. (The interpreter's limit on the number of digits, where it has
  one, is a \<^verbatim>\<open>ValueError\<close> too and is not modelled.)
\<close>

fun int_digits :: "nat \<Rightarrow> string \<Rightarrow> nat option" where
  "int_digits acc [] = Some acc"
| "int_digits acc [c] = (case digit c of None \<Rightarrow> None | Some d \<Rightarrow> Some (10 * acc + d))"
| "int_digits acc (c # c' # cs) =
     (if c = CHR ''_''
      then (case digit c' of None \<Rightarrow> None | Some d \<Rightarrow> int_digits (10 * acc + d) cs)
      else (case digit c of None \<Rightarrow> None | Some d \<Rightarrow> int_digits (10 * acc + d) (c' # cs)))"

definition unsigned_int :: "string \<Rightarrow> nat option" where
  "unsigned_int s =
     (case s of [] \<Rightarrow> None
      | c # cs \<Rightarrow> (case digit c of None \<Rightarrow> None | Some d \<Rightarrow> int_digits d cs))"

definition py_int :: "string \<Rightarrow> int option" where
  "py_int s =
     (case strip s of [] \<Rightarrow> None
      | c # cs \<Rightarrow>
          if c = CHR ''-'' then map_option (\<lambda>n. - int n) (unsigned_int cs)
          else if c = CHR ''+'' then map_option int (unsigned_int cs)
          else map_option int (unsigned_int (c # cs)))"

section \<open>The console and the external collaborators\<close>

text \<open>
  The user is the list of lines still to be typed; \<^verbatim>\<open>input()\<close> takes the first one
  and raises \<^verbatim>\<open>EOFError\<close> when there is none. What the program shows or asks of a
  collaborator is appended to a log of events.
\<close>

datatype error = EOFError | InvariantViolation

datatype prompt =
    AskIngredienti | AskMinuti | AskPreferenze | AskRicetta nat | AskRete | AskAlternativa string

datatype event =
    Asked prompt
  | Listed "string list"
  | Complained string
  | Inference string "nat option"
  | PartialSearch "string list"
  | DetailsSearch string

record world =
  inputs :: "string list"
  events :: "event list"

definition input :: "prompt \<Rightarrow> world \<Rightarrow> error + (string \<times> world)" where
  "input p w =
     (case inputs w of
        [] \<Rightarrow> Inl EOFError
      | l # ls \<Rightarrow> Inr (l, w\<lparr>inputs := ls, events := events w @ [Asked p]\<rparr>))"

definition emit :: "event \<Rightarrow> world \<Rightarrow> world" where
  "emit e w = w\<lparr>events := events w @ [e]\<rparr>"

subsection \<open>interfacciaConUtente.py\<close>

definition converti_tempo_in_categoria :: "int \<Rightarrow> string" where
  "converti_tempo_in_categoria minuti =
     (if minuti \<le> 20 then ''poco'' else if minuti \<le> 60 then ''medio'' else ''molto'')"

definition converti_tempo_in_indice :: "string \<Rightarrow> nat" where
  "converti_tempo_in_indice categoria_tempo =
     (if categoria_tempo = ''poco'' then 0
      else if categoria_tempo = ''medio'' then 1
      else if categoria_tempo = ''molto'' then 2
      else 1)"

definition chiedi_ingredienti_disponibili :: "world \<Rightarrow> error + (string list \<times> world)" where
  "chiedi_ingredienti_disponibili w =
     (case input AskIngredienti w of
        Inl e \<Rightarrow> Inl e
      | Inr (l, w') \<Rightarrow>
          (let risposta = strip l
           in if risposta = [] then Inr ([], w')
              else Inr (map (\<lambda>ing. lower (strip ing)) (split_comma risposta), w')))"

text \<open>
  The \<^verbatim>\<open>while True\<close> loop of \<^verbatim>\<open>chiedi_tempo_disponibile\<close>: each turn takes one
  line; a line that is no integer (\<^verbatim>\<open>ValueError\<close>, caught) or is not positive leads to
  the next turn. The recursion is on the lines left.
\<close>

fun tempo_loop :: "string list \<Rightarrow> event list \<Rightarrow> error + (string \<times> world)" where
  "tempo_loop [] ev = Inl EOFError"
| "tempo_loop (l # ls) ev =
     (case py_int (strip l) of
        None \<Rightarrow> tempo_loop ls (ev @ [Asked AskMinuti, Complained ''Input non valido''])
      | Some minuti \<Rightarrow>
          if minuti \<le> 0
          then tempo_loop ls (ev @ [Asked AskMinuti, Complained ''Inserisci un numero positivo''])
          else Inr (converti_tempo_in_categoria minuti,
                    \<lparr>inputs = ls, events = ev @ [Asked AskMinuti]\<rparr>))"

definition chiedi_tempo_disponibile :: "world \<Rightarrow> error + (string \<times> world)" where
  "chiedi_tempo_disponibile w = tempo_loop (inputs w) (events w)"

definition chiedi_preferenze_alimentari :: "world \<Rightarrow> error + (string list \<times> world)" where
  "chiedi_preferenze_alimentari w =
     (case input AskPreferenze w of
        Inl e \<Rightarrow> Inl e
      | Inr (l, w') \<Rightarrow>
          (let risposta = lower (strip l)
           in if risposta = [] \<or> risposta = ''nessuna'' then Inr ([], w')
              else Inr (map strip (split_comma risposta), w')))"

section \<open>The rule engine\<close>

text \<open>
  Modelled from the spec: the forward-chaining engine (fact store, condition evaluator,
  agenda and scheduler). It is the rule-engine library whose class \<^verbatim>\<open>KnowledgeEngine\<close>
  the program extends in \<^verbatim>\<open>consulenteRicette.py\<close>; its code is not among the sources.
  Every definition of this section follows sections 3 and 4.1 to 4.3 of the specification.
  The rules, their saliences and their actions, further down, are the ones of the source.
\<close>

subsection \<open>Fact store\<close>

text \<open>
  Modelled from the spec: the fact store of the engine (sections 3 and 4.1), with
  \<open>insert\<close>, \<open>retract\<close> and \<open>query\<close>. Every fact of the program has one field with a
  string value. The store keeps the facts in insertion order, each with the cycle at which
  it was asserted (used for the recency tie-break only).
\<close>

type_synonym fact = "string \<times> string"

type_synonym store = "(fact \<times> nat) list"

definition present :: "fact \<Rightarrow> store \<Rightarrow> bool" where
  "present f fs = (f \<in> set (map fst fs))"

definition insert_fact :: "nat \<Rightarrow> fact \<Rightarrow> store \<Rightarrow> bool \<times> store" where
  "insert_fact t f fs = (if present f fs then (False, fs) else (True, fs @ [(f, t)]))"

definition retract_fact :: "fact \<Rightarrow> store \<Rightarrow> bool \<times> store" where
  "retract_fact f fs =
     (if present f fs then (True, filter (\<lambda>e. fst e \<noteq> f) fs) else (False, fs))"

definition query :: "(fact \<Rightarrow> bool) \<Rightarrow> store \<Rightarrow> fact list" where
  "query P fs = filter P (map fst fs)"

subsection \<open>Condition evaluator\<close>

text \<open>Modelled from the spec: the conditions of the engine (section 3).\<close>

datatype cond =
    FieldEquals string string
  | Exists string
  | Not cond
  | Or "cond list"

text \<open>
  Modelled from the spec: the condition evaluator of the engine (section 4.2).
  A binding is represented by the facts that support it, one for each \<open>FieldEquals\<close> and
  \<open>Exists\<close> met, in the order of the conditions; the value an \<open>Exists\<close> binds is the value
  of its fact. \<open>match_cond\<close> gives the extensions one condition allows, \<open>match_all\<close> joins
  the conditions of a rule from left to right.
\<close>

fun match_cond :: "fact list \<Rightarrow> cond \<Rightarrow> fact list list" where
  "match_cond fs (FieldEquals f v) = (if (f, v) \<in> set fs then [ [(f, v)] ] else [])"
| "match_cond fs (Exists f) = map (\<lambda>x. [x]) (filter (\<lambda>x. fst x = f) fs)"
| "match_cond fs (Not c) = (if match_cond fs c = [] then [ [] ] else [])"
| "match_cond fs (Or cs) = concat (map (match_cond fs) cs)"

fun match_all :: "fact list \<Rightarrow> cond list \<Rightarrow> fact list list" where
  "match_all fs [] = [ [] ]"
| "match_all fs (c # cs) =
     concat (map (\<lambda>s. map (\<lambda>s'. s @ s') (match_all fs cs)) (match_cond fs c))"

subsection \<open>Rules, activations, agenda\<close>

text \<open>
  Modelled from the spec: what an action does to the fact store, and an activation, a rule
  (by its place in the rule base) with a binding (section 3).
\<close>

datatype op = Assert fact | Retract fact

datatype activation = Activation (act_rule: nat) (act_support: "fact list")

text \<open>
  Modelled from the spec: rules and the state of the engine (sections 3 and 4.3).
  The action of a rule gets the binding it fires with, the facts present and the outside
  world; it gives the operations on the fact store it performs and the new outside world,
  or the error it raises. The state of the engine keeps, besides the fact store and the
  refraction set, the log of the firings so far: each activation fired with the operations
  its action performed.
\<close>

record 'w rule =
  rule_name :: string
  conditions :: "cond list"
  salience :: rat
  action :: "fact list \<Rightarrow> fact list \<Rightarrow> 'w \<Rightarrow> error + (op list \<times> 'w)"

record 'w engine_state =
  facts :: store
  refraction :: "activation list"
  cycle :: nat
  fired :: "(activation \<times> op list) list"
  outside :: 'w

definition facts_of :: "'w engine_state \<Rightarrow> fact list" where
  "facts_of st = map fst (facts st)"

text \<open>
  Modelled from the spec: step 1 of section 4.3, activation discovery: every rule, in
  declaration order, every binding; the agenda holds those not in the refraction set.
\<close>

fun discover_from :: "nat \<Rightarrow> 'w rule list \<Rightarrow> fact list \<Rightarrow> activation list" where
  "discover_from i [] fs = []"
| "discover_from i (r # rs) fs =
     map (Activation i) (remdups (match_all fs (conditions r))) @ discover_from (Suc i) rs fs"

definition discover :: "'w rule list \<Rightarrow> fact list \<Rightarrow> activation list" where
  "discover rs fs = discover_from 0 rs fs"

definition agenda :: "'w rule list \<Rightarrow> 'w engine_state \<Rightarrow> activation list" where
  "agenda rs st = filter (\<lambda>a. a \<notin> set (refraction st)) (discover rs (facts_of st))"

text \<open>
  Modelled from the spec: step 2 of section 4.3, conflict resolution.
  An activation was enabled at the cycle at which the last of
  its supporting facts was asserted. The agenda lists the activations by rule declaration
  order, then binding order; \<open>select\<close> takes the first one that no other one beats on
  salience and then on recency.
\<close>

definition stamp :: "store \<Rightarrow> fact \<Rightarrow> nat" where
  "stamp fs f = (case map_of fs f of None \<Rightarrow> 0 | Some t \<Rightarrow> t)"

definition enabled_at :: "store \<Rightarrow> activation \<Rightarrow> nat" where
  "enabled_at fs a = fold max (map (stamp fs) (act_support a)) 0"

definition salience_of :: "'w rule list \<Rightarrow> activation \<Rightarrow> rat" where
  "salience_of rs a = salience (rs ! act_rule a)"

definition beats :: "'w rule list \<Rightarrow> store \<Rightarrow> activation \<Rightarrow> activation \<Rightarrow> bool" where
  "beats rs fs a b =
     (salience_of rs a > salience_of rs b
      \<or> (salience_of rs a = salience_of rs b \<and> enabled_at fs a > enabled_at fs b))"

fun select :: "'w rule list \<Rightarrow> store \<Rightarrow> activation list \<Rightarrow> activation option" where
  "select rs fs [] = None"
| "select rs fs (a # as) =
     (case select rs fs as of
        None \<Rightarrow> Some a
      | Some b \<Rightarrow> if beats rs fs b a then Some b else Some a)"

text \<open>
  Modelled from the spec: steps 3 and 4 of section 4.3, firing.
  The operations of the fired action are applied in order. Asserting a fact
  that is present changes nothing. Retracting a fact drops from the refraction set every
  activation it supported; retracting a fact that is not there is the fatal invariant
  violation of section 7.
\<close>

fun apply_ops :: "nat \<Rightarrow> op list \<Rightarrow> store \<times> activation list \<Rightarrow> error + (store \<times> activation list)" where
  "apply_ops t [] sr = Inr sr"
| "apply_ops t (Assert f # ops) (fs, refr) = apply_ops t ops (snd (insert_fact t f fs), refr)"
| "apply_ops t (Retract f # ops) (fs, refr) =
     (case retract_fact f fs of
        (False, _) \<Rightarrow> Inl InvariantViolation
      | (True, fs') \<Rightarrow> apply_ops t ops (fs', filter (\<lambda>a. f \<notin> set (act_support a)) refr))"

definition fire :: "'w rule list \<Rightarrow> activation \<Rightarrow> 'w engine_state \<Rightarrow> error + 'w engine_state" where
  "fire rs a st =
     (let t = Suc (cycle st)
      in case action (rs ! act_rule a) (act_support a) (facts_of st) (outside st) of
           Inl e \<Rightarrow> Inl e
         | Inr (ops, w') \<Rightarrow>
             (case apply_ops t ops (facts st, a # refraction st) of
                Inl e \<Rightarrow> Inl e
              | Inr (fs', refr') \<Rightarrow>
                  Inr \<lparr>facts = fs', refraction = refr', cycle = t,
                       fired = fired st @ [(a, ops)], outside = w'\<rparr>))"

text \<open>
  Modelled from the spec: step 5 of section 4.3, the loop of the engine.
  The engine stops when the agenda is empty, when the fired action raised (the state is
  then the one before that firing), or, where a halt fact is designated, as soon as a fired
  action has asserted that fact. A bound on the number of cycles stands for the loop;
  running into it is the second fatal condition of section 7.
\<close>

definition last_ops :: "'w engine_state \<Rightarrow> op list" where
  "last_ops st = (case rev (fired st) of [] \<Rightarrow> [] | e # _ \<Rightarrow> snd e)"

datatype 'w outcome =
    Quiescent "'w engine_state"
  | Halted "'w engine_state"
  | Aborted error "'w engine_state"
  | OutOfCycles "'w engine_state"

fun run :: "nat \<Rightarrow> fact option \<Rightarrow> 'w rule list \<Rightarrow> 'w engine_state \<Rightarrow> 'w outcome" where
  "run 0 halt rs st = OutOfCycles st"
| "run (Suc n) halt rs st =
     (case select rs (facts st) (agenda rs st) of
        None \<Rightarrow> Quiescent st
      | Some a \<Rightarrow>
          (case fire rs a st of
             Inl e \<Rightarrow> Aborted e st
           | Inr st' \<Rightarrow>
               (case halt of
                  None \<Rightarrow> run n halt rs st'
                | Some h \<Rightarrow>
                    if Assert h \<in> set (last_ops st') then Halted st' else run n halt rs st')))"

text \<open>Modelled from the spec: the driver seeds the initial facts (section 2).\<close>

definition seed :: "fact list \<Rightarrow> 'w \<Rightarrow> 'w engine_state" where
  "seed fs w =
     \<lparr>facts = map (\<lambda>f. (f, 0)) (remdups fs), refraction = [], cycle = 0, fired = [], outside = w\<rparr>"

section \<open>The collaborators behind interfacciaConUtente.py\<close>

text \<open>
  The Bayesian network and the ontology are libraries and files outside the program. What
  they answer is a parameter: whether the network can be built, what the inference gives
  for the chosen mode (\<open>''1''\<close> default, \<open>''2''\<close> after learning from the dataset, where a
  failed learning falls back to the network at hand) and the evidence, and what the
  ontology holds about a recipe. A numeric estimate comes as the text of the rounded
  percentage.
\<close>

datatype infer_outcome = InferenceRaises | NoSuccesso | NonNumeric | Stima string

record dettagli =
  tempo :: "string option"
  descrizione :: "string option"
  alternativa :: "string option"

record env =
  rete_ok :: bool
  inferenza :: "string \<Rightarrow> nat option \<Rightarrow> infer_outcome"
  ontologia :: "string \<Rightarrow> dettagli option"

text \<open>The loop \<^verbatim>\<open>while scelta_rete not in ["1", "2"]\<close>.\<close>

fun rete_loop :: "string list \<Rightarrow> event list \<Rightarrow> error + (string \<times> world)" where
  "rete_loop [] ev = Inl EOFError"
| "rete_loop (l # ls) ev =
     (let scelta_rete = strip l
      in if scelta_rete = ''1'' \<or> scelta_rete = ''2''
         then Inr (scelta_rete, \<lparr>inputs = ls, events = ev @ [Asked AskRete]\<rparr>)
         else rete_loop ls (ev @ [Asked AskRete]))"

definition non_disponibile :: string where
  "non_disponibile = ''Valutazione non disponibile.''"

definition impossibile :: string where
  "impossibile = ''Impossibile calcolare la stima.''"

definition stimata :: "string \<Rightarrow> string" where
  "stimata s = ''Probabilit'' @ [CHR 0xC3, CHR 0xA0] @ '' di successo stimata: '' @ s @ ''%''"

definition calcola_rischio_o_successo_ricetta ::
  "env \<Rightarrow> string \<Rightarrow> string option \<Rightarrow> world \<Rightarrow> error + (string \<times> world)" where
  "calcola_rischio_o_successo_ricetta E nome_ricetta fatti_tempo w =
     (if \<not> rete_ok E then Inr (non_disponibile, w)
      else
        (let evidenza = map_option converti_tempo_in_indice fatti_tempo
         in case rete_loop (inputs w) (events w) of
              Inl e \<Rightarrow> Inl e
            | Inr (scelta_rete, w') \<Rightarrow>
                Inr (case inferenza E scelta_rete evidenza of
                       Stima s \<Rightarrow> stimata s
                     | NonNumeric \<Rightarrow> impossibile
                     | NoSuccesso \<Rightarrow> impossibile
                     | InferenceRaises \<Rightarrow> impossibile,
                     emit (Inference scelta_rete evidenza) w')))"

definition cerca_ricette_parziali :: "string list \<Rightarrow> world \<Rightarrow> world" where
  "cerca_ricette_parziali lista_ingredienti w = emit (PartialSearch lista_ingredienti) w"

section \<open>consulenteRicette.py\<close>

definition azione :: "string \<Rightarrow> fact" where
  "azione a = (''azione'', a)"

definition values_of :: "string \<Rightarrow> fact list \<Rightarrow> string list" where
  "values_of field fs = map snd (filter (\<lambda>f. fst f = field) fs)"

definition chiedi_ingredienti ::
  "fact list \<Rightarrow> fact list \<Rightarrow> world \<Rightarrow> error + (op list \<times> world)" where
  "chiedi_ingredienti b fs w =
     (case chiedi_ingredienti_disponibili w of
        Inl e \<Rightarrow> Inl e
      | Inr (ingredienti_utente, w') \<Rightarrow>
          if ingredienti_utente = [] then Inr ([Assert (azione ''termina'')], w')
          else Inr (map (\<lambda>i. Assert (''ingrediente'', lower (strip i))) ingredienti_utente
                    @ [Assert (azione ''chiediTempo'')], w'))"

definition chiedi_tempo ::
  "fact list \<Rightarrow> fact list \<Rightarrow> world \<Rightarrow> error + (op list \<times> world)" where
  "chiedi_tempo b fs w =
     (case chiedi_tempo_disponibile w of
        Inl e \<Rightarrow> Inl e
      | Inr (t, w') \<Rightarrow>
          Inr ([Assert (''tempo_disponibile'', t), Assert (azione ''chiediPreferenze'')], w'))"

definition chiedi_preferenze ::
  "fact list \<Rightarrow> fact list \<Rightarrow> world \<Rightarrow> error + (op list \<times> world)" where
  "chiedi_preferenze b fs w =
     (case chiedi_preferenze_alimentari w of
        Inl e \<Rightarrow> Inl e
      | Inr (prefs, w') \<Rightarrow>
          Inr (map (\<lambda>p. Assert (''preferenza'', lower (strip p))) prefs
               @ [Assert (azione ''trovaRicetta'')], w'))"

definition suggerisci ::
  "string \<Rightarrow> fact list \<Rightarrow> fact list \<Rightarrow> world \<Rightarrow> error + (op list \<times> world)" where
  "suggerisci nome b fs w = Inr ([Assert (''candidato'', nome)], w)"

text \<open>
  The selection loop of \<^verbatim>\<open>scegli_candidati\<close>:
  \<^verbatim>\<open>while scelta < 1 or scelta > len(candidati_lista)\<close>, entered with \<open>scelta = 0\<close>.
\<close>

fun scelta_loop :: "nat \<Rightarrow> string list \<Rightarrow> event list \<Rightarrow> error + (int \<times> world)" where
  "scelta_loop n [] ev = Inl EOFError"
| "scelta_loop n (l # ls) ev =
     (case py_int (strip l) of
        None \<Rightarrow> scelta_loop n ls (ev @ [Asked (AskRicetta n), Complained ''Input non valido''])
      | Some scelta \<Rightarrow>
          if scelta < 1 \<or> scelta > int n
          then scelta_loop n ls (ev @ [Asked (AskRicetta n), Complained ''Scelta non valida''])
          else Inr (scelta, \<lparr>inputs = ls, events = ev @ [Asked (AskRicetta n)]\<rparr>))"

text \<open>
  The candidates are collected in a Python set and listed from it; the order of that
  list is the interpreter's. Here it is the order of first assertion.
\<close>

definition candidati :: "fact list \<Rightarrow> string list" where
  "candidati fs = remdups (values_of ''candidato'' fs)"

definition scegli_candidati ::
  "fact list \<Rightarrow> fact list \<Rightarrow> world \<Rightarrow> error + (op list \<times> world)" where
  "scegli_candidati b fs w =
     (let candidati_lista = candidati fs;
          dichiara = (\<lambda>ricetta_scelta.
             [Assert (''ricetta_suggerita'', ricetta_scelta), Assert (azione ''valutaRicetta'')])
      in if length candidati_lista = 1 then Inr (dichiara (candidati_lista ! 0), w)
         else
           (let w1 = emit (Listed candidati_lista) w
            in case scelta_loop (length candidati_lista) (inputs w1) (events w1) of
                 Inl e \<Rightarrow> Inl e
               | Inr (scelta, w') \<Rightarrow> Inr (dichiara (candidati_lista ! nat (scelta - 1)), w')))"

definition nessuna_ricetta_trovata ::
  "fact list \<Rightarrow> fact list \<Rightarrow> world \<Rightarrow> error + (op list \<times> world)" where
  "nessuna_ricetta_trovata b fs w =
     (let ingredienti_utente = values_of ''ingrediente'' fs
      in Inr ([Assert (azione ''termina'')],
              if ingredienti_utente = [] then w else cerca_ricette_parziali ingredienti_utente w))"

text \<open>
  \<^verbatim>\<open>MATCH.ricetta\<close> and \<^verbatim>\<open>MATCH.valutazione\<close> are the values of the supporting facts
  with that field. The dictionary \<^verbatim>\<open>fatti_per_bayes\<close> ends with the time of the last
  \<open>tempo_disponibile\<close> fact, if there is one.
\<close>

definition ultimo :: "string list \<Rightarrow> string option" where
  "ultimo xs = (case rev xs of [] \<Rightarrow> None | x # _ \<Rightarrow> Some x)"

definition valuta_ricetta_con_bayes ::
  "env \<Rightarrow> fact list \<Rightarrow> fact list \<Rightarrow> world \<Rightarrow> error + (op list \<times> world)" where
  "valuta_ricetta_con_bayes E b fs w =
     (case map_of b ''ricetta_suggerita'' of
        None \<Rightarrow> Inl InvariantViolation
      | Some ricetta \<Rightarrow>
          (case calcola_rischio_o_successo_ricetta E ricetta
                  (ultimo (values_of ''tempo_disponibile'' fs)) w of
             Inl e \<Rightarrow> Inl e
           | Inr (rischio_o_successo, w') \<Rightarrow>
               Inr ([Assert (''valutazione_ricetta'', rischio_o_successo),
                     Assert (azione ''stampaRisultato'')], w')))"

definition stampa_dettagli_ricetta :: "env \<Rightarrow> string \<Rightarrow> world \<Rightarrow> string option \<times> world" where
  "stampa_dettagli_ricetta E nome_ricetta w =
     (case ontologia E nome_ricetta of
        None \<Rightarrow> None
      | Some d \<Rightarrow> alternativa d,
      emit (DetailsSearch nome_ricetta) w)"

text \<open>The loop \<^verbatim>\<open>while risposta not in ['s', 'n']\<close>.\<close>

fun alternativa_loop :: "string \<Rightarrow> string list \<Rightarrow> event list \<Rightarrow> error + (string \<times> world)" where
  "alternativa_loop nome [] ev = Inl EOFError"
| "alternativa_loop nome (l # ls) ev =
     (let risposta = lower (strip l)
      in if risposta = ''s'' \<or> risposta = ''n''
         then Inr (risposta, \<lparr>inputs = ls, events = ev @ [Asked (AskAlternativa nome)]\<rparr>)
         else alternativa_loop nome ls (ev @ [Asked (AskAlternativa nome)]))"

text \<open>
  \<^verbatim>\<open>stampare_risultato_finale\<close> up to its last statement: the details of the recipe
  and, where the ontology names a similar recipe, the question whether to show that one
  too. The last statement declares \<open>azione = termina\<close>.
\<close>

definition mostra_risultato_finale :: "env \<Rightarrow> string \<Rightarrow> world \<Rightarrow> error + world" where
  "mostra_risultato_finale E ricetta w =
     (case stampa_dettagli_ricetta E ricetta w of
        (None, w1) \<Rightarrow> Inr w1
      | (Some nome_alternativa, w1) \<Rightarrow>
          if nome_alternativa = [] then Inr w1
          else
            (case alternativa_loop nome_alternativa (inputs w1) (events w1) of
               Inl e \<Rightarrow> Inl e
             | Inr (risposta, w2) \<Rightarrow>
                 Inr (if risposta = ''s''
                      then snd (stampa_dettagli_ricetta E nome_alternativa w2) else w2)))"

definition stampare_risultato_finale ::
  "env \<Rightarrow> fact list \<Rightarrow> fact list \<Rightarrow> world \<Rightarrow> error + (op list \<times> world)" where
  "stampare_risultato_finale E b fs w =
     (case (map_of b ''ricetta_suggerita'', map_of b ''valutazione_ricetta'') of
        (Some ricetta, Some valutazione) \<Rightarrow>
          (case mostra_risultato_finale E ricetta w of
             Inl e \<Rightarrow> Inl e
           | Inr w' \<Rightarrow> Inr ([Assert (azione ''termina'')], w'))
      | _ \<Rightarrow> Inl InvariantViolation)"

definition terminare_esecuzione ::
  "fact list \<Rightarrow> fact list \<Rightarrow> world \<Rightarrow> error + (op list \<times> world)" where
  "terminare_esecuzione b fs w = Inr ([], w)"

text \<open>The rules of the class \<^verbatim>\<open>ConsulenteRicette\<close>, in the order of their declaration.\<close>

definition ConsulenteRicette :: "env \<Rightarrow> world rule list" where
  "ConsulenteRicette E =
   [ \<lparr>rule_name = ''chiedi_ingredienti'',
      conditions = [FieldEquals ''azione'' ''chiediIngredienti''],
      salience = 10, action = chiedi_ingredienti\<rparr>,
     \<lparr>rule_name = ''chiedi_tempo'',
      conditions = [FieldEquals ''azione'' ''chiediTempo''],
      salience = 9, action = chiedi_tempo\<rparr>,
     \<lparr>rule_name = ''chiedi_preferenze'',
      conditions = [FieldEquals ''azione'' ''chiediPreferenze''],
      salience = 8, action = chiedi_preferenze\<rparr>,
     \<lparr>rule_name = ''suggerisci_pasta_pomodoro'',
      conditions = [FieldEquals ''azione'' ''trovaRicetta'',
                    FieldEquals ''ingrediente'' ''pasta'',
                    FieldEquals ''ingrediente'' ''pomodoro'',
                    Or [FieldEquals ''tempo_disponibile'' ''medio'',
                        FieldEquals ''tempo_disponibile'' ''molto''] ],
      salience = 1, action = suggerisci ''Pasta al Pomodoro''\<rparr>,
     \<lparr>rule_name = ''suggerisci_uova_strapazzate'',
      conditions = [FieldEquals ''azione'' ''trovaRicetta'',
                    FieldEquals ''ingrediente'' ''uova'',
                    FieldEquals ''tempo_disponibile'' ''poco''],
      salience = 1, action = suggerisci ''Uova Strapazzate''\<rparr>,
     \<lparr>rule_name = ''suggerisci_insalata'',
      conditions = [FieldEquals ''azione'' ''trovaRicetta'',
                    FieldEquals ''ingrediente'' ''lattuga'',
                    FieldEquals ''ingrediente'' ''pomodoro'',
                    FieldEquals ''tempo_disponibile'' ''poco''],
      salience = 1, action = suggerisci ''Insalata Mista''\<rparr>,
     \<lparr>rule_name = ''scegli_candidati'',
      conditions = [FieldEquals ''azione'' ''trovaRicetta'', Exists ''candidato''],
      salience = 1 / 2, action = scegli_candidati\<rparr>,
     \<lparr>rule_name = ''nessuna_ricetta_trovata'',
      conditions = [FieldEquals ''azione'' ''trovaRicetta'', Not (Exists ''candidato'')],
      salience = 0, action = nessuna_ricetta_trovata\<rparr>,
     \<lparr>rule_name = ''valuta_ricetta_con_bayes'',
      conditions = [FieldEquals ''azione'' ''valutaRicetta'', Exists ''ricetta_suggerita''],
      salience = - (1 / 2), action = valuta_ricetta_con_bayes E\<rparr>,
     \<lparr>rule_name = ''stampare_risultato_finale'',
      conditions = [FieldEquals ''azione'' ''stampaRisultato'', Exists ''ricetta_suggerita'',
                    Exists ''valutazione_ricetta''],
      salience = - 1, action = stampare_risultato_finale E\<rparr>,
     \<lparr>rule_name = ''terminare_esecuzione'',
      conditions = [FieldEquals ''azione'' ''termina''],
      salience = - 10, action = terminare_esecuzione\<rparr> ]"

text \<open>
  \<^verbatim>\<open>_initial_action\<close> yields the one initial fact. The class passes nothing else to the
  engine: no fact is designated as halting and no action calls for a halt, so
  \<open>azione = termina\<close> is a fact like the others, the one that the last rule matches.
\<close>

definition initial_action :: "fact list" where
  "initial_action = [azione ''chiediIngredienti'']"

definition avvia_consulente_ricette :: "env \<Rightarrow> nat \<Rightarrow> world \<Rightarrow> world outcome" where
  "avvia_consulente_ricette E n w = run n None (ConsulenteRicette E) (seed initial_action w)"


section \<open>Notions used in the statements\<close>

text \<open>The state an outcome ends in.\<close>

fun state_of :: "'w outcome \<Rightarrow> 'w engine_state" where
  "state_of (Quiescent st) = st"
| "state_of (Halted st) = st"
| "state_of (Aborted e st) = st"
| "state_of (OutOfCycles st) = st"

text \<open>
  The states the engine passes through from a state: each step fires the activation that
  \<open>select\<close> takes from the agenda.
\<close>

inductive reaches :: "'w rule list \<Rightarrow> 'w engine_state \<Rightarrow> 'w engine_state \<Rightarrow> bool"
  for rs :: "'w rule list" and st :: "'w engine_state" where
  start: "reaches rs st st"
| step: "reaches rs st st' \<Longrightarrow> select rs (facts st') (agenda rs st') = Some a \<Longrightarrow>
         fire rs a st' = Inr st'' \<Longrightarrow> reaches rs st st''"

text \<open>No firing of a stretch of the log retracted a fact that supports the activation.\<close>

definition untouched :: "activation \<Rightarrow> (activation \<times> op list) list \<Rightarrow> bool" where
  "untouched b tr = (\<forall>f \<in> set (act_support b). \<forall>e \<in> set tr. Retract f \<notin> set (snd e))"

text \<open>
  Readings of a log entry, and the shape of a log in which nothing follows the first
  entry of some kind.
\<close>

definition asserts :: "fact \<Rightarrow> activation \<times> op list \<Rightarrow> bool" where
  "asserts f e = (Assert f \<in> set (snd e))"


fun nothing_after :: "('a \<Rightarrow> bool) \<Rightarrow> 'a list \<Rightarrow> bool" where
  "nothing_after P [] = True"
| "nothing_after P (e # es) = (if P e then es = [] else nothing_after P es)"

text \<open>What the user may type at the two validated prompts, and how often a prompt was shown.\<close>

definition minuti_validi :: "string \<Rightarrow> bool" where
  "minuti_validi l = (case py_int (strip l) of None \<Rightarrow> False | Some m \<Rightarrow> 0 < m)"

definition scelta_valida :: "nat \<Rightarrow> string \<Rightarrow> bool" where
  "scelta_valida n l = (case py_int (strip l) of None \<Rightarrow> False | Some k \<Rightarrow> 1 \<le> k \<and> k \<le> int n)"

definition asked :: "prompt \<Rightarrow> event list \<Rightarrow> nat" where
  "asked p ev = length (filter (\<lambda>e. e = Asked p) ev)"

text \<open>
  The seed facts of the first scenario of section 8 of the specification, and an
  environment for the concrete runs: the network is built, every inference gives 85.0 and
  the ontology knows no recipe.
\<close>

definition scenario_pasta :: "fact list" where
  "scenario_pasta = [(''ingrediente'', ''pasta''), (''ingrediente'', ''pomodoro''),
                     (''tempo_disponibile'', ''medio''), azione ''trovaRicetta'']"

definition ambiente_esempio :: env where
  "ambiente_esempio =
     \<lparr>rete_ok = True, inferenza = (\<lambda>scelta evidenza. Stima ''85.0''), ontologia = (\<lambda>nome. None)\<rparr>"

text \<open>
  The values that a run of assertions of one field adds to the store: each value once, in
  the order of its first occurrence, unless it is among those seen already.
\<close>

fun nuovi :: "string list \<Rightarrow> string list \<Rightarrow> string list" where
  "nuovi [] seen = []"
| "nuovi (v # vs) seen = (if v \<in> set seen then nuovi vs seen else v # nuovi vs (seen @ [v]))"


text \<open>
  A user with eggs, lettuce and tomato and ten minutes, no preference, who answers 1 to
  every question that follows.
\<close>

definition due_candidati :: world where
  "due_candidati =
     \<lparr>inputs = [''uova, lattuga, pomodoro'', ''10'', '''', ''1'', ''1'', ''1''], events = []\<rparr>"

text \<open>Operations that retract nothing.\<close>

definition only_asserts :: "op list \<Rightarrow> bool" where
  "only_asserts ops = (\<forall>x \<in> set ops. \<exists>f. x = Assert f)"

text \<open>
  The rules fired so far, in order, and the order of the questions: among the firings of
  the three question rules and the three candidate rules, \<open>chiedi_ingredienti\<close> comes
  before \<open>chiedi_tempo\<close>, that before \<open>chiedi_preferenze\<close>, that before every candidate rule,
  and none of the three question rules fires twice.
\<close>

definition rules_fired :: "'w engine_state \<Rightarrow> nat list" where
  "rules_fired st = map (act_rule \<circ> fst) (fired st)"

definition questions_first :: "nat list \<Rightarrow> bool" where
  "questions_first rs =
     (sorted (map (\<lambda>i. min i 3) (filter (\<lambda>i. i \<le> 5) rs)) \<and> distinct (filter (\<lambda>i. i \<le> 2) rs))"

text \<open>
  What holds of every state of a consultation: what fired is in the refraction set; the
  question rules fired with their one binding; the fact that triggers a rule is in the store
  only after the rule that asserts it has fired, and was in the store when the rule fired.
\<close>

definition causal :: "world engine_state \<Rightarrow> bool" where
  "causal st =
     ((\<forall>e \<in> set (fired st). fst e \<in> set (refraction st))
      \<and> (\<forall>e \<in> set (fired st). act_rule (fst e) = 0 \<longrightarrow> fst e = Activation 0 [azione ''chiediIngredienti''])
      \<and> (\<forall>e \<in> set (fired st). act_rule (fst e) = 1 \<longrightarrow> fst e = Activation 1 [azione ''chiediTempo''])
      \<and> (\<forall>e \<in> set (fired st). act_rule (fst e) = 2 \<longrightarrow> fst e = Activation 2 [azione ''chiediPreferenze''])
      \<and> (azione ''chiediTempo'' \<in> set (facts_of st) \<longrightarrow> 0 \<in> set (rules_fired st))
      \<and> (azione ''chiediPreferenze'' \<in> set (facts_of st) \<longrightarrow> 1 \<in> set (rules_fired st))
      \<and> (azione ''trovaRicetta'' \<in> set (facts_of st) \<longrightarrow> 2 \<in> set (rules_fired st))
      \<and> (1 \<in> set (rules_fired st) \<longrightarrow> azione ''chiediTempo'' \<in> set (facts_of st))
      \<and> (2 \<in> set (rules_fired st) \<longrightarrow> azione ''chiediPreferenze'' \<in> set (facts_of st))
      \<and> ((\<exists>i \<in> set (rules_fired st). 3 \<le> i \<and> i \<le> 5) \<longrightarrow> azione ''trovaRicetta'' \<in> set (facts_of st))
      \<and> questions_first (rules_fired st))"


section \<open>Input validation\<close>

lemma asked_append [simp]: "asked p (xs @ ys) = asked p xs + asked p ys"
  by (simp add: asked_def)

lemma asked_simps [simp]:
  "asked p [] = 0"
  "asked p (Asked q # ev) = (if q = p then 1 else 0) + asked p ev"
  "asked p (Complained s # ev) = asked p ev"
  "asked p (Listed xs # ev) = asked p ev"
  "asked p (Inference m e # ev) = asked p ev"
  "asked p (PartialSearch is # ev) = asked p ev"
  "asked p (DetailsSearch n # ev) = asked p ev"
  by (auto simp: asked_def)

lemma categoria_cases:
  "converti_tempo_in_categoria m \<in> {''poco'', ''medio'', ''molto''}"
  by (simp add: converti_tempo_in_categoria_def)

lemma tempo_loop_Inr:
  "tempo_loop ls ev = Inr (t, w') \<Longrightarrow>
     t \<in> {''poco'', ''medio'', ''molto''} \<and>
     (\<exists>bad l. ls = bad @ l # inputs w' \<and> (\<forall>x \<in> set bad. \<not> minuti_validi x) \<and> minuti_validi l
        \<and> asked AskMinuti (events w') = asked AskMinuti ev + length bad + 1)"
proof (induction ls arbitrary: ev)
  case Nil
  then show ?case by simp
next
  case (Cons l ls)
  show ?case
  proof (cases "minuti_validi l")
    case True
    then obtain m where m: "py_int (strip l) = Some m" "0 < m"
      by (auto simp: minuti_validi_def split: option.splits)
    with Cons.prems have "t = converti_tempo_in_categoria m" "inputs w' = ls"
      "events w' = ev @ [Asked AskMinuti]"
      by auto
    with True show ?thesis
      using categoria_cases [of m] by (intro conjI exI [of _ "[]"] exI [of _ l]) auto
  next
    case False
    then obtain c where "tempo_loop ls (ev @ [Asked AskMinuti, Complained c]) = Inr (t, w')"
      using Cons.prems by (auto simp: minuti_validi_def split: option.splits if_splits)
    from Cons.IH [OF this] obtain bad l' where
      t: "t \<in> {''poco'', ''medio'', ''molto''}" and
      b: "ls = bad @ l' # inputs w'" "\<forall>x \<in> set bad. \<not> minuti_validi x" "minuti_validi l'"
         "asked AskMinuti (events w') = asked AskMinuti ev + 1 + length bad + 1"
      by auto
    show ?thesis
      using t b False by (intro conjI exI [of _ "l # bad"] exI [of _ l']) auto
  qed
qed

lemma tempo_loop_Inl:
  "tempo_loop ls ev = Inl e \<Longrightarrow> e = EOFError \<and> (\<forall>x \<in> set ls. \<not> minuti_validi x)"
proof (induction ls arbitrary: ev)
  case Nil
  then show ?case by simp
next
  case (Cons l ls)
  from Cons.prems have bad: "\<not> minuti_validi l"
    by (auto simp: minuti_validi_def split: option.splits if_splits)
  from Cons.prems obtain ev' where "tempo_loop ls ev' = Inl e"
    by (auto split: option.splits if_splits)
  from Cons.IH [OF this] bad show ?case by simp
qed

lemma scelta_loop_Inr:
  "scelta_loop n ls ev = Inr (k, w') \<Longrightarrow>
     1 \<le> k \<and> k \<le> int n \<and>
     (\<exists>bad l. ls = bad @ l # inputs w' \<and> (\<forall>x \<in> set bad. \<not> scelta_valida n x)
        \<and> scelta_valida n l
        \<and> asked (AskRicetta n) (events w') = asked (AskRicetta n) ev + length bad + 1)"
proof (induction ls arbitrary: ev)
  case Nil
  then show ?case by simp
next
  case (Cons l ls)
  show ?case
  proof (cases "scelta_valida n l")
    case True
    then obtain m where m: "py_int (strip l) = Some m" "1 \<le> m" "m \<le> int n"
      by (auto simp: scelta_valida_def split: option.splits)
    with Cons.prems have "k = m" "inputs w' = ls" "events w' = ev @ [Asked (AskRicetta n)]"
      by auto
    with True m show ?thesis
      by (intro conjI exI [of _ "[]"] exI [of _ l]) auto
  next
    case False
    then obtain c where "scelta_loop n ls (ev @ [Asked (AskRicetta n), Complained c]) = Inr (k, w')"
      using Cons.prems by (auto simp: scelta_valida_def split: option.splits if_splits)
    from Cons.IH [OF this] obtain bad l' where
      k: "1 \<le> k" "k \<le> int n" and
      b: "ls = bad @ l' # inputs w'" "\<forall>x \<in> set bad. \<not> scelta_valida n x" "scelta_valida n l'"
         "asked (AskRicetta n) (events w') = asked (AskRicetta n) ev + 1 + length bad + 1"
      by auto
    show ?thesis
      using k b False by (intro conjI exI [of _ "l # bad"] exI [of _ l']) auto
  qed
qed

lemma scelta_loop_Inl:
  "scelta_loop n ls ev = Inl e \<Longrightarrow> e = EOFError \<and> (\<forall>x \<in> set ls. \<not> scelta_valida n x)"
proof (induction ls arbitrary: ev)
  case Nil
  then show ?case by simp
next
  case (Cons l ls)
  from Cons.prems have bad: "\<not> scelta_valida n l"
    by (auto simp: scelta_valida_def split: option.splits if_splits)
  from Cons.prems obtain ev' where "scelta_loop n ls ev' = Inl e"
    by (auto split: option.splits if_splits)
  from Cons.IH [OF this] bad show ?case by simp
qed

text \<open>
  C8. Malformed input is answered by asking again and never surfaces as a failure.
  \<^verbatim>\<open>chiedi_tempo_disponibile\<close> skips every line that is not a positive integer, asks once
  more for each, and returns at the first line that is one, with one of the three
  categories. \<^verbatim>\<open>scegli_candidati\<close> does the same with the lines that are not an integer
  between 1 and the number of candidates, and declares one of the candidates. Neither
  raises on a malformed line: the only error is the end of the input, met when no line
  typed was valid.
\<close>

theorem malformed_input_recovered:
  "(case chiedi_tempo_disponibile w of
      Inl e \<Rightarrow> e = EOFError \<and> (\<forall>l \<in> set (inputs w). \<not> minuti_validi l)
    | Inr (t, w') \<Rightarrow>
        t \<in> {''poco'', ''medio'', ''molto''} \<and>
        (\<exists>bad l. inputs w = bad @ l # inputs w' \<and> (\<forall>x \<in> set bad. \<not> minuti_validi x)
           \<and> minuti_validi l
           \<and> asked AskMinuti (events w') = asked AskMinuti (events w) + length bad + 1))
   \<and>
   (case scegli_candidati b fs w of
      Inl e \<Rightarrow> e = EOFError \<and> (\<forall>l \<in> set (inputs w). \<not> scelta_valida (length (candidati fs)) l)
    | Inr (ops, w') \<Rightarrow>
        (\<exists>c \<in> set (candidati fs).
           ops = [Assert (''ricetta_suggerita'', c), Assert (azione ''valutaRicetta'')]) \<and>
        (if length (candidati fs) = 1 then w' = w
         else \<exists>bad l. inputs w = bad @ l # inputs w'
                \<and> (\<forall>x \<in> set bad. \<not> scelta_valida (length (candidati fs)) x)
                \<and> scelta_valida (length (candidati fs)) l
                \<and> asked (AskRicetta (length (candidati fs))) (events w')
                    = asked (AskRicetta (length (candidati fs))) (events w) + length bad + 1))"
proof (intro conjI)
  show "case chiedi_tempo_disponibile w of
      Inl e \<Rightarrow> e = EOFError \<and> (\<forall>l \<in> set (inputs w). \<not> minuti_validi l)
    | Inr (t, w') \<Rightarrow>
        t \<in> {''poco'', ''medio'', ''molto''} \<and>
        (\<exists>bad l. inputs w = bad @ l # inputs w' \<and> (\<forall>x \<in> set bad. \<not> minuti_validi x)
           \<and> minuti_validi l
           \<and> asked AskMinuti (events w') = asked AskMinuti (events w) + length bad + 1)"
    unfolding chiedi_tempo_disponibile_def
    using tempo_loop_Inl [of "inputs w" "events w"] tempo_loop_Inr [of "inputs w" "events w"]
    by (auto split: sum.splits)
next
  let ?cs = "candidati fs"
  let ?n = "length ?cs"
  show "case scegli_candidati b fs w of
      Inl e \<Rightarrow> e = EOFError \<and> (\<forall>l \<in> set (inputs w). \<not> scelta_valida ?n l)
    | Inr (ops, w') \<Rightarrow>
        (\<exists>c \<in> set ?cs.
           ops = [Assert (''ricetta_suggerita'', c), Assert (azione ''valutaRicetta'')]) \<and>
        (if ?n = 1 then w' = w
         else \<exists>bad l. inputs w = bad @ l # inputs w'
                \<and> (\<forall>x \<in> set bad. \<not> scelta_valida ?n x)
                \<and> scelta_valida ?n l
                \<and> asked (AskRicetta ?n) (events w') = asked (AskRicetta ?n) (events w) + length bad + 1)"
  proof (cases "?n = 1")
    case True
    then have "?cs ! 0 \<in> set ?cs" by (cases ?cs) auto
    with True show ?thesis by (simp add: scegli_candidati_def Let_def)
  next
    case False
    let ?w1 = "emit (Listed ?cs) w"
    have w1: "inputs ?w1 = inputs w" "asked p (events ?w1) = asked p (events w)" for p
      by (simp_all add: emit_def)
    show ?thesis
    proof (cases "scelta_loop ?n (inputs ?w1) (events ?w1)")
      case (Inl e)
      from scelta_loop_Inl [OF this] Inl False show ?thesis
        by (simp add: scegli_candidati_def Let_def w1)
    next
      case (Inr r)
      obtain k w' where r: "r = (k, w')" by (cases r)
      from scelta_loop_Inr [OF Inr [unfolded r] ] obtain bad l where
        k: "1 \<le> k" "k \<le> int ?n" and
        b: "inputs ?w1 = bad @ l # inputs w'" "\<forall>x \<in> set bad. \<not> scelta_valida ?n x"
           "scelta_valida ?n l"
           "asked (AskRicetta ?n) (events w') = asked (AskRicetta ?n) (events ?w1) + length bad + 1"
        by blast
      from k have "nat (k - 1) < ?n" by linarith
      then have "?cs ! nat (k - 1) \<in> set ?cs" by simp
      with Inr r False b show ?thesis
        by (auto simp: scegli_candidati_def Let_def w1)
    qed
  qed
qed

theorem malformed_input_recovered_witness:
  "(\<exists>bad l. [''abc'', ''0'', '' 45 '', ''x''] = bad @ l # [''x'']
      \<and> (\<forall>x \<in> set bad. \<not> minuti_validi x) \<and> minuti_validi l)
   \<and> (\<exists>bad l. [''7'', ''2'', ''y''] = bad @ l # [''y'']
      \<and> (\<forall>x \<in> set bad. \<not> scelta_valida 2 x) \<and> scelta_valida 2 l)"
proof -
  let ?w1 = "\<lparr>inputs = [''abc'', ''0'', '' 45 '', ''x''], events = []\<rparr>"
  let ?w2 = "\<lparr>inputs = [''7'', ''2'', ''y''], events = []\<rparr>"
  let ?fs = "[(''candidato'', ''A''), (''candidato'', ''B'')]"
  have e1: "chiedi_tempo_disponibile ?w1
     = Inr (''medio'', \<lparr>inputs = [''x''],
          events = [Asked AskMinuti, Complained ''Input non valido'', Asked AskMinuti,
                    Complained ''Inserisci un numero positivo'', Asked AskMinuti]\<rparr>)"
    by code_simp
  have e2: "scegli_candidati [] ?fs ?w2
     = Inr ([Assert (''ricetta_suggerita'', ''B''), Assert (azione ''valutaRicetta'')],
          \<lparr>inputs = [''y''],
           events = [Listed [''A'', ''B''], Asked (AskRicetta 2),
                     Complained ''Scelta non valida'', Asked (AskRicetta 2)]\<rparr>)"
    by code_simp
  have n: "length (candidati ?fs) = 2"
    by code_simp
  show ?thesis
    using malformed_input_recovered [where w = ?w1 and b = "[]" and fs = ?fs]
          malformed_input_recovered [where w = ?w2 and b = "[]" and fs = ?fs]
    by (simp add: e1 e2 n)
qed


section \<open>The engine: fact store, refraction, firing order\<close>

subsection \<open>Runs and the states they pass through\<close>

lemma reaches_trans: "reaches rs st' st'' \<Longrightarrow> reaches rs st st' \<Longrightarrow> reaches rs st st''"
  by (induction rule: reaches.induct) (auto intro: reaches.intros)

lemma run_reaches: "reaches rs st (state_of (run n h rs st))"
proof (induction n arbitrary: st)
  case 0
  show ?case by (simp add: reaches.start)
next
  case (Suc n)
  show ?case
  proof (cases "select rs (facts st) (agenda rs st)")
    case None
    then show ?thesis by (simp add: reaches.start)
  next
    case (Some a)
    show ?thesis
    proof (cases "fire rs a st")
      case (Inl e)
      with Some show ?thesis by (simp add: reaches.start)
    next
      case (Inr st')
      have one: "reaches rs st st'"
        by (rule reaches.step [OF reaches.start Some Inr])
      have "reaches rs st (state_of (run n h rs st'))"
        by (rule reaches_trans [OF Suc.IH one])
      with Some Inr one show ?thesis
        by (cases h) auto
    qed
  qed
qed

lemma insert_fact_present: "present f fs \<Longrightarrow> insert_fact t f fs = (False, fs)"
  by (simp add: insert_fact_def)

lemma present_after_insert: "present f (snd (insert_fact t f fs))"
  by (simp add: insert_fact_def present_def)

lemma insert_fact_distinct:
  "distinct (map fst fs) \<Longrightarrow> distinct (map fst (snd (insert_fact t f fs)))"
  by (simp add: insert_fact_def present_def)

lemma retract_fact_distinct:
  "distinct (map fst fs) \<Longrightarrow> distinct (map fst (snd (retract_fact f fs)))"
  by (simp add: retract_fact_def distinct_map_filter)

lemma apply_ops_distinct:
  "apply_ops t ops (fs, r) = Inr (fs', r') \<Longrightarrow> distinct (map fst fs) \<Longrightarrow> distinct (map fst fs')"
proof (induction ops arbitrary: fs r)
  case Nil
  then show ?case by simp
next
  case (Cons x ops)
  show ?case
  proof (cases x)
    case (Assert f)
    with Cons.prems have "apply_ops t ops (snd (insert_fact t f fs), r) = Inr (fs', r')" by simp
    from Cons.IH [OF this insert_fact_distinct [OF Cons.prems(2)] ] show ?thesis .
  next
    case (Retract f)
    with Cons.prems have p: "present f fs"
      and "apply_ops t ops (snd (retract_fact f fs), filter (\<lambda>a. f \<notin> set (act_support a)) r) = Inr (fs', r')"
      by (auto simp: retract_fact_def split: if_splits)
    from Cons.IH [OF this(2) retract_fact_distinct [OF Cons.prems(2)] ] show ?thesis .
  qed
qed

lemma fire_Inr:
  "fire rs a st = Inr st' \<Longrightarrow>
     \<exists>ops w'. action (rs ! act_rule a) (act_support a) (facts_of st) (outside st) = Inr (ops, w')
       \<and> apply_ops (Suc (cycle st)) ops (facts st, a # refraction st) = Inr (facts st', refraction st')
       \<and> fired st' = fired st @ [(a, ops)] \<and> outside st' = w' \<and> cycle st' = Suc (cycle st)"
  by (auto simp: fire_def Let_def split: sum.splits prod.splits)

lemma fire_distinct:
  "fire rs a st = Inr st' \<Longrightarrow> distinct (facts_of st) \<Longrightarrow> distinct (facts_of st')"
  using apply_ops_distinct by (fastforce simp: facts_of_def dest!: fire_Inr)

lemma reaches_distinct:
  "reaches rs st st' \<Longrightarrow> distinct (facts_of st) \<Longrightarrow> distinct (facts_of st')"
  by (induction rule: reaches.induct) (auto dest: fire_distinct)

lemma seed_distinct: "distinct (facts_of (seed fs w))"
  by (simp add: seed_def facts_of_def comp_def)

text \<open>
  C7. Asserting a fact whose content is already in the store is a no-op and not an error:
  \<open>insert_fact\<close> answers \<open>False\<close> and leaves the store as it is, so a second insert of the
  same fact changes neither the size nor the contents, and the executor goes on with the
  next operation. No state that the engine reaches from a seed holds two facts of the same
  content, and the state a run ends in is such a state.
\<close>

theorem no_duplicate_facts:
  "(present f fs \<longrightarrow> insert_fact t f fs = (False, fs))
   \<and> snd (insert_fact t' f (snd (insert_fact t f fs))) = snd (insert_fact t f fs)
   \<and> length (snd (insert_fact t' f (snd (insert_fact t f fs)))) = length (snd (insert_fact t f fs))
   \<and> (present f fs \<longrightarrow> apply_ops t (Assert f # ops) (fs, r) = apply_ops t ops (fs, r))
   \<and> (reaches rs (seed fs0 w) st \<longrightarrow> distinct (facts_of st))
   \<and> distinct (facts_of (state_of (run n h rs (seed fs0 w))))"
proof -
  have "snd (insert_fact t' f (snd (insert_fact t f fs))) = snd (insert_fact t f fs)"
    using present_after_insert [of f t fs] by (simp add: insert_fact_present)
  moreover have "distinct (facts_of (state_of (run n h rs (seed fs0 w))))"
    using reaches_distinct [OF run_reaches seed_distinct] .
  ultimately show ?thesis
    using reaches_distinct [OF _ seed_distinct] by (auto simp: insert_fact_present)
qed

theorem no_duplicate_facts_witness:
  "insert_fact 1 (azione ''termina'') [(azione ''termina'', 0)] = (False, [(azione ''termina'', 0)])
   \<and> distinct (facts_of (state_of
         (avvia_consulente_ricette ambiente_esempio 3 \<lparr>inputs = [''''], events = []\<rparr>)))"
  using no_duplicate_facts [where f = "azione ''termina''" and fs = "[(azione ''termina'', 0)]"
      and t = 1 and n = 3 and h = None and rs = "ConsulenteRicette ambiente_esempio"
      and ?fs0.0 = initial_action and w = "\<lparr>inputs = [''''], events = []\<rparr>"]
  by (simp add: present_def avvia_consulente_ricette_def)

subsection \<open>Refraction\<close>

lemma untouched_simps [simp]:
  "untouched b []"
  "untouched b (xs @ ys) = (untouched b xs \<and> untouched b ys)"
  by (auto simp: untouched_def)

lemma agenda_refraction: "a \<in> set (refraction st) \<Longrightarrow> a \<notin> set (agenda rs st)"
  by (simp add: agenda_def)

lemma select_mem: "select rs fs ag = Some a \<Longrightarrow> a \<in> set ag"
  by (induction ag arbitrary: a) (auto split: option.splits if_splits)

lemma apply_ops_refraction:
  "apply_ops t ops (fs, r) = Inr (fs', r') \<Longrightarrow>
     r' = filter (\<lambda>b. \<forall>f \<in> set (act_support b). Retract f \<notin> set ops) r"
proof (induction ops arbitrary: fs r)
  case Nil
  then show ?case by simp
next
  case (Cons x ops)
  show ?case
  proof (cases x)
    case (Assert f)
    with Cons.prems have "apply_ops t ops (snd (insert_fact t f fs), r) = Inr (fs', r')" by simp
    from Cons.IH [OF this] Assert show ?thesis by simp
  next
    case (Retract f)
    with Cons.prems have
      "apply_ops t ops (snd (retract_fact f fs), filter (\<lambda>a. f \<notin> set (act_support a)) r) = Inr (fs', r')"
      by (auto simp: retract_fact_def split: if_splits)
    from Cons.IH [OF this] Retract show ?thesis
      by (auto intro!: filter_cong)
  qed
qed

lemma fire_refraction:
  assumes "fire rs a st = Inr st'"
  shows "\<exists>ops. fired st' = fired st @ [(a, ops)] \<and>
           refraction st' = filter (\<lambda>b. untouched b [(a, ops)]) (a # refraction st)"
proof -
  from fire_Inr [OF assms] obtain ops where
    a: "apply_ops (Suc (cycle st)) ops (facts st, a # refraction st) = Inr (facts st', refraction st')"
    and f: "fired st' = fired st @ [(a, ops)]"
    by blast
  from apply_ops_refraction [OF a] f show ?thesis
    by (auto simp: untouched_def)
qed

lemma reaches_refraction:
  "reaches rs st st' \<Longrightarrow>
     \<exists>tr. fired st' = fired st @ tr \<and>
          (\<forall>b \<in> set (refraction st). untouched b tr \<longrightarrow> b \<in> set (refraction st'))"
proof (induction rule: reaches.induct)
  case start
  show ?case by (rule exI [of _ "[]"]) simp
next
  case (step st' a st'')
  from step.IH obtain tr where tr: "fired st' = fired st @ tr"
    and keep: "\<forall>b \<in> set (refraction st). untouched b tr \<longrightarrow> b \<in> set (refraction st')"
    by blast
  from fire_refraction [OF step.hyps(3)] obtain ops where
    f: "fired st'' = fired st' @ [(a, ops)]" and
    r: "refraction st'' = filter (\<lambda>b. untouched b [(a, ops)]) (a # refraction st')"
    by blast
  show ?case
  proof (intro exI [of _ "tr @ [(a, ops)]"] conjI ballI impI)
    show "fired st'' = fired st @ tr @ [(a, ops)]" using f tr by simp
  next
    fix b assume "b \<in> set (refraction st)" "untouched b (tr @ [(a, ops)])"
    with keep r show "b \<in> set (refraction st'')" by simp
  qed
qed

lemma match_cond_support: "s \<in> set (match_cond fs c) \<Longrightarrow> set s \<subseteq> set fs"
  by (induction fs c arbitrary: s rule: match_cond.induct) (auto split: if_splits)

lemma match_all_support: "s \<in> set (match_all fs cs) \<Longrightarrow> set s \<subseteq> set fs"
proof (induction cs arbitrary: s)
  case Nil
  then show ?case by simp
next
  case (Cons c cs)
  then obtain s1 s2 where "s = s1 @ s2" "s1 \<in> set (match_cond fs c)" "s2 \<in> set (match_all fs cs)"
    by auto
  with Cons.IH [of s2] match_cond_support [of s1 fs c] show ?case by simp
qed

lemma discover_from_support:
  "a \<in> set (discover_from i rs fs) \<Longrightarrow> set (act_support a) \<subseteq> set fs"
proof (induction rs arbitrary: i)
  case Nil
  then show ?case by simp
next
  case (Cons r rs)
  from Cons.prems consider
    s where "a = Activation i s" "s \<in> set (match_all fs (conditions r))"
    | "a \<in> set (discover_from (Suc i) rs fs)"
    by auto
  then show ?case
  proof cases
    case 1
    with match_all_support [of s fs "conditions r"] show ?thesis by simp
  next
    case 2
    from Cons.IH [OF this] show ?thesis .
  qed
qed

lemma agenda_support: "a \<in> set (agenda rs st) \<Longrightarrow> set (act_support a) \<subseteq> set (facts_of st)"
  by (auto simp: agenda_def discover_def dest: discover_from_support)

text \<open>
  C6. Refraction. Let the activation \<open>a\<close> have fired, and let the engine have gone on from
  there to a state \<open>st\<close>. If no firing since, the one of \<open>a\<close> included, retracted a fact that
  supports \<open>a\<close>, then \<open>a\<close> is in the refraction set of \<open>st\<close>, is not on its agenda and is not
  the activation fired next. If \<open>a\<close> is on the agenda of \<open>st\<close> again, then one of its
  supporting facts was retracted since, and all of them are in the store now: the retracted
  one was asserted again.
\<close>

theorem refraction_holds:
  assumes "fire rs a st0 = Inr st1" and "reaches rs st1 st"
  shows "(untouched a (drop (length (fired st0)) (fired st)) \<longrightarrow>
            a \<in> set (refraction st) \<and> a \<notin> set (agenda rs st)
            \<and> select rs (facts st) (agenda rs st) \<noteq> Some a)
       \<and> (a \<in> set (agenda rs st) \<longrightarrow>
            \<not> untouched a (drop (length (fired st0)) (fired st))
            \<and> set (act_support a) \<subseteq> set (facts_of st))"
proof -
  from fire_refraction [OF assms(1)] obtain ops where
    f1: "fired st1 = fired st0 @ [(a, ops)]" and
    r1: "refraction st1 = filter (\<lambda>b. untouched b [(a, ops)]) (a # refraction st0)"
    by blast
  from reaches_refraction [OF assms(2)] obtain tr where
    f: "fired st = fired st1 @ tr" and
    keep: "\<forall>b \<in> set (refraction st1). untouched b tr \<longrightarrow> b \<in> set (refraction st)"
    by blast
  have d: "drop (length (fired st0)) (fired st) = (a, ops) # tr"
    using f f1 by simp
  have in_refr: "a \<in> set (refraction st)" if "untouched a ((a, ops) # tr)"
  proof -
    from that have u: "untouched a [(a, ops)]" "untouched a tr"
      by (auto simp: untouched_def)
    with r1 have "a \<in> set (refraction st1)" by simp
    with keep u show ?thesis by blast
  qed
  show ?thesis
    unfolding d
    using in_refr agenda_refraction [of a st rs] select_mem [of rs "facts st" "agenda rs st" a]
      agenda_support [of a rs st]
    by blast
qed

theorem refraction_holds_witness:
  "Activation 0 [azione ''chiediIngredienti'']
     \<notin> set (agenda (ConsulenteRicette ambiente_esempio)
          \<lparr>facts = [(azione ''chiediIngredienti'', 0), (azione ''termina'', 1)],
           refraction = [Activation 0 [azione ''chiediIngredienti''] ], cycle = 1,
           fired = [(Activation 0 [azione ''chiediIngredienti''], [Assert (azione ''termina'')])],
           outside = \<lparr>inputs = [], events = [Asked AskIngredienti]\<rparr>\<rparr>)"
proof -
  let ?rs = "ConsulenteRicette ambiente_esempio"
  let ?a = "Activation 0 [azione ''chiediIngredienti'']"
  let ?st0 = "seed initial_action \<lparr>inputs = [''''], events = []\<rparr>"
  let ?st1 = "\<lparr>facts = [(azione ''chiediIngredienti'', 0), (azione ''termina'', 1)],
           refraction = [?a], cycle = 1, fired = [(?a, [Assert (azione ''termina'')])],
           outside = \<lparr>inputs = [], events = [Asked AskIngredienti]\<rparr>\<rparr>"
  have f: "fire ?rs ?a ?st0 = Inr ?st1"
    by (simp add: fire_def seed_def initial_action_def facts_of_def ConsulenteRicette_def
          chiedi_ingredienti_def chiedi_ingredienti_disponibili_def input_def strip_def
          insert_fact_def present_def azione_def)
  have u: "untouched ?a (drop (length (fired ?st0)) (fired ?st1))"
    by (simp add: untouched_def seed_def)
  from refraction_holds [OF f reaches.start] u show ?thesis by blast
qed

subsection \<open>Conflict resolution\<close>

lemma select_not_beaten:
  "select rs fs ag = Some a \<Longrightarrow> b \<in> set ag \<Longrightarrow> \<not> beats rs fs b a"
proof (induction ag arbitrary: a)
  case Nil
  then show ?case by simp
next
  case (Cons x ag)
  show ?case
  proof (cases "select rs fs ag")
    case None
    then have "ag = []" by (cases ag) (auto split: option.splits if_splits)
    with Cons.prems None show ?thesis by (auto simp: beats_def)
  next
    case (Some c)
    note IH = Cons.IH [OF Some]
    show ?thesis
    proof (cases "beats rs fs c x")
      case True
      with Cons.prems Some have ac: "a = c" by simp
      show ?thesis
      proof (cases "b = x")
        case True
        with \<open>beats rs fs c x\<close> ac show ?thesis by (auto simp: beats_def)
      next
        case False
        with Cons.prems have "b \<in> set ag" by simp
        with IH ac show ?thesis by simp
      qed
    next
      case False
      with Cons.prems Some have ax: "a = x" by simp
      show ?thesis
      proof (cases "b = x")
        case True
        with ax show ?thesis by (auto simp: beats_def)
      next
        case nb: False
        with Cons.prems have "b \<in> set ag" by simp
        from IH [OF this] have "\<not> beats rs fs b c" .
        with False ax show ?thesis by (auto simp: beats_def)
      qed
    qed
  qed
qed

lemma select_first:
  "select rs fs ag = Some a \<Longrightarrow>
     \<exists>pre post. ag = pre @ a # post \<and> (\<forall>b \<in> set pre. beats rs fs a b)"
proof (induction ag arbitrary: a)
  case Nil
  then show ?case by simp
next
  case (Cons x ag)
  show ?case
  proof (cases "select rs fs ag")
    case None
    with Cons.prems have "a = x" by simp
    then show ?thesis by (intro exI [of _ "[]"] exI [of _ ag]) simp
  next
    case (Some c)
    show ?thesis
    proof (cases "beats rs fs c x")
      case True
      with Cons.prems Some have ac: "a = c" by simp
      from Cons.IH [OF Some] obtain pre post where
        "ag = pre @ c # post" "\<forall>b \<in> set pre. beats rs fs c b" by blast
      with True ac show ?thesis
        by (intro exI [of _ "x # pre"] exI [of _ post]) simp
    next
      case False
      with Cons.prems Some have "a = x" by simp
      then show ?thesis by (intro exI [of _ "[]"] exI [of _ ag]) simp
    qed
  qed
qed

lemma select_total: "ag \<noteq> [] \<Longrightarrow> select rs fs ag \<noteq> None"
  by (cases ag) (auto split: option.splits)

lemma discover_from_bounds:
  "a \<in> set (discover_from i rs fs) \<Longrightarrow> i \<le> act_rule a \<and> act_rule a < i + length rs"
  by (induction rs arbitrary: i) (fastforce)+

lemma sorted_map_const: "sorted (map (\<lambda>x. c) xs)"
  by (induction xs) auto

lemma discover_from_sorted: "sorted (map act_rule (discover_from i rs fs))"
proof (induction rs arbitrary: i)
  case Nil
  show ?case by simp
next
  case (Cons r rs)
  have "i \<le> act_rule b" if "b \<in> set (discover_from (Suc i) rs fs)" for b
    using discover_from_bounds [OF that] by simp
  with Cons.IH [of "Suc i"] show ?case
    by (auto simp: sorted_append comp_def sorted_map_const)
qed

lemma agenda_sorted: "sorted (map act_rule (agenda rs st))"
  unfolding agenda_def discover_def
  using discover_from_sorted [of 0 rs "facts_of st"]
  by (simp add: sorted_filter)

lemma agenda_bound: "a \<in> set (agenda rs st) \<Longrightarrow> act_rule a < length rs"
  using discover_from_bounds [of a 0 rs "facts_of st"] by (simp add: agenda_def discover_def)

lemma select_order:
  assumes "select rs (facts st) (agenda rs st) = Some a" and "b \<in> set (agenda rs st)"
  shows "salience_of rs b \<le> salience_of rs a
       \<and> (salience_of rs b = salience_of rs a \<longrightarrow>
            enabled_at (facts st) b \<le> enabled_at (facts st) a
            \<and> (enabled_at (facts st) b = enabled_at (facts st) a \<longrightarrow> act_rule a \<le> act_rule b))"
proof -
  from select_not_beaten [OF assms] have nb: "\<not> beats rs (facts st) b a" .
  from select_first [OF assms(1)] obtain pre post where
    ag: "agenda rs st = pre @ a # post" and pre: "\<forall>c \<in> set pre. beats rs (facts st) a c"
    by blast
  have "act_rule a \<le> act_rule b" if "\<not> beats rs (facts st) a b"
  proof -
    from that pre have "b \<notin> set pre" by blast
    with assms(2) ag have "b = a \<or> b \<in> set post" by auto
    moreover have "sorted (map act_rule (pre @ a # post))"
      using agenda_sorted [of rs st] ag by simp
    ultimately show ?thesis by (auto simp: sorted_append)
  qed
  with nb show ?thesis by (auto simp: beats_def not_less)
qed

section \<open>The rules of the program\<close>



lemma discover_from_match:
  "a \<in> set (discover_from k rs fs) \<Longrightarrow>
     k \<le> act_rule a \<and> act_rule a - k < length rs
     \<and> act_support a \<in> set (match_all fs (conditions (rs ! (act_rule a - k))))"
proof (induction rs arbitrary: k)
  case Nil
  then show ?case by simp
next
  case (Cons r rs)
  from Cons.prems consider
    s where "a = Activation k s" "s \<in> set (match_all fs (conditions r))"
    | "a \<in> set (discover_from (Suc k) rs fs)"
    by auto
  then show ?case
  proof cases
    case 1
    then show ?thesis by simp
  next
    case 2
    from Cons.IH [OF this] have
      *: "Suc k \<le> act_rule a" "act_rule a - Suc k < length rs"
         "act_support a \<in> set (match_all fs (conditions (rs ! (act_rule a - Suc k))))"
      by simp_all
    from *(1) have "act_rule a - k = Suc (act_rule a - Suc k)" by arith
    with * show ?thesis by simp
  qed
qed

lemma agenda_match:
  "a \<in> set (agenda rs st) \<Longrightarrow>
     act_rule a < length rs
     \<and> act_support a \<in> set (match_all (facts_of st) (conditions (rs ! act_rule a)))"
  using discover_from_match [of a 0 rs "facts_of st"] by (simp add: agenda_def discover_def)

lemma length_CR: "length (ConsulenteRicette E) = 11"
  by (simp add: ConsulenteRicette_def)

lemma less_11:
  "(i::nat) < 11 \<Longrightarrow>
     i = 0 \<or> i = 1 \<or> i = 2 \<or> i = 3 \<or> i = 4 \<or> i = 5 \<or> i = 6 \<or> i = 7 \<or> i = 8 \<or> i = 9 \<or> i = 10"
  by arith

lemma salience_CR:
  "salience (ConsulenteRicette E ! 0) = 10"
  "salience (ConsulenteRicette E ! 1) = 9"
  "salience (ConsulenteRicette E ! Suc 0) = 9"
  "salience (ConsulenteRicette E ! 2) = 8"
  "salience (ConsulenteRicette E ! 3) = 1"
  "salience (ConsulenteRicette E ! 4) = 1"
  "salience (ConsulenteRicette E ! 5) = 1"
  "salience (ConsulenteRicette E ! 6) = 1 / 2"
  "salience (ConsulenteRicette E ! 7) = 0"
  "salience (ConsulenteRicette E ! 8) = - (1 / 2)"
  "salience (ConsulenteRicette E ! 9) = - 1"
  "salience (ConsulenteRicette E ! 10) = - 10"
  by (simp_all add: ConsulenteRicette_def)






lemmas engine_simps =
  agenda_def discover_def facts_of_def fire_def beats_def salience_of_def enabled_at_def stamp_def
  insert_fact_def retract_fact_def present_def Let_def

lemmas rule_simps =
  ConsulenteRicette_def azione_def values_of_def candidati_def


subsection \<open>The order of firing\<close>

lemma candidate_or_earlier:
  assumes "i < 11" and "salience (ConsulenteRicette E ! i) \<ge> s"
  shows "(8 \<le> s \<longrightarrow> i \<le> 2) \<and> (9 \<le> s \<longrightarrow> i \<le> 1) \<and> (10 \<le> s \<longrightarrow> i = 0) \<and> (1 \<le> s \<longrightarrow> i \<le> 5)"
  using less_11 [OF assms(1)] assms(2) by (elim disjE) (simp_all add: salience_CR)


lemma apply_ops_only_asserts:
  "apply_ops t ops (fs, r) = Inr (fs', r') \<Longrightarrow> only_asserts ops \<Longrightarrow>
     r' = r \<and> set (map fst fs') = set (map fst fs) \<union> {f. Assert f \<in> set ops}"
proof (induction ops arbitrary: fs)
  case Nil
  then show ?case by simp
next
  case (Cons x ops)
  from Cons.prems(2) obtain f where x: "x = Assert f" and rest: "only_asserts ops"
    by (auto simp: only_asserts_def)
  from Cons.prems(1) x have "apply_ops t ops (snd (insert_fact t f fs), r) = Inr (fs', r')"
    by simp
  from Cons.IH [OF this rest] x show ?case
    by (auto simp: insert_fact_def present_def split: if_splits)
qed

lemma nth_CR:
  "ConsulenteRicette E ! 0 = \<lparr>rule_name = ''chiedi_ingredienti'',
      conditions = [FieldEquals ''azione'' ''chiediIngredienti''],
      salience = 10, action = chiedi_ingredienti\<rparr>"
  "ConsulenteRicette E ! 1 = \<lparr>rule_name = ''chiedi_tempo'',
      conditions = [FieldEquals ''azione'' ''chiediTempo''],
      salience = 9, action = chiedi_tempo\<rparr>"
  "ConsulenteRicette E ! 2 = \<lparr>rule_name = ''chiedi_preferenze'',
      conditions = [FieldEquals ''azione'' ''chiediPreferenze''],
      salience = 8, action = chiedi_preferenze\<rparr>"
  by (simp_all add: ConsulenteRicette_def)

lemma actions_CR:
  "action (ConsulenteRicette E ! 0) = chiedi_ingredienti"
  "action (ConsulenteRicette E ! 1) = chiedi_tempo"
  "action (ConsulenteRicette E ! Suc 0) = chiedi_tempo"
  "action (ConsulenteRicette E ! 2) = chiedi_preferenze"
  "action (ConsulenteRicette E ! 3) = suggerisci ''Pasta al Pomodoro''"
  "action (ConsulenteRicette E ! 4) = suggerisci ''Uova Strapazzate''"
  "action (ConsulenteRicette E ! 5) = suggerisci ''Insalata Mista''"
  "action (ConsulenteRicette E ! 6) = scegli_candidati"
  "action (ConsulenteRicette E ! 7) = nessuna_ricetta_trovata"
  "action (ConsulenteRicette E ! 8) = valuta_ricetta_con_bayes E"
  "action (ConsulenteRicette E ! 9) = stampare_risultato_finale E"
  "action (ConsulenteRicette E ! 10) = terminare_esecuzione"
  by (simp_all add: ConsulenteRicette_def)

lemma ops_CR:
  assumes "i < 11" and "action (ConsulenteRicette E ! i) b fs w = Inr (ops, w')"
  shows "only_asserts ops
       \<and> (Assert (azione ''chiediTempo'') \<in> set ops \<longrightarrow> i = 0)
       \<and> (Assert (azione ''chiediPreferenze'') \<in> set ops \<longrightarrow> i = 1)
       \<and> (Assert (azione ''trovaRicetta'') \<in> set ops \<longrightarrow> i = 2)"
  using less_11 [OF assms(1)] assms(2)
  by (elim disjE)
     (auto simp: actions_CR only_asserts_def azione_def chiedi_ingredienti_def chiedi_tempo_def
        chiedi_preferenze_def suggerisci_def scegli_candidati_def nessuna_ricetta_trovata_def
        valuta_ricetta_con_bayes_def stampare_risultato_finale_def terminare_esecuzione_def
        Let_def
        split: sum.splits prod.splits option.splits if_splits)

lemma trigger_CR:
  assumes "a \<in> set (agenda (ConsulenteRicette E) st)"
  shows "(act_rule a = 0 \<longrightarrow> a = Activation 0 [azione ''chiediIngredienti''])
       \<and> (act_rule a = 1 \<longrightarrow> a = Activation 1 [azione ''chiediTempo''] \<and> azione ''chiediTempo'' \<in> set (facts_of st))
       \<and> (act_rule a = 2 \<longrightarrow> a = Activation 2 [azione ''chiediPreferenze''] \<and> azione ''chiediPreferenze'' \<in> set (facts_of st))
       \<and> (3 \<le> act_rule a \<and> act_rule a \<le> 5 \<longrightarrow> azione ''trovaRicetta'' \<in> set (facts_of st))"
proof -
  from agenda_match [OF assms] have
    m: "act_support a \<in> set (match_all (facts_of st) (conditions (ConsulenteRicette E ! act_rule a)))"
    and b: "act_rule a < 11"
    by (simp_all add: length_CR)
  have c: "act_rule a = 3 \<or> act_rule a = 4 \<or> act_rule a = 5" if "3 \<le> act_rule a \<and> act_rule a \<le> 5"
    using that by arith
  have r0: "a = Activation 0 [azione ''chiediIngredienti'']" if "act_rule a = 0"
    using m that by (cases a) (auto simp: ConsulenteRicette_def azione_def split: if_splits)
  have r1: "a = Activation 1 [azione ''chiediTempo''] \<and> azione ''chiediTempo'' \<in> set (facts_of st)"
    if "act_rule a = 1"
    using m that by (cases a) (auto simp: ConsulenteRicette_def azione_def split: if_splits)
  have r2: "a = Activation 2 [azione ''chiediPreferenze''] \<and> azione ''chiediPreferenze'' \<in> set (facts_of st)"
    if "act_rule a = 2"
    using m that by (cases a) (auto simp: ConsulenteRicette_def azione_def split: if_splits)
  have r3: "azione ''trovaRicetta'' \<in> set (facts_of st)" if "3 \<le> act_rule a \<and> act_rule a \<le> 5"
    using c [OF that] m
    by (elim disjE) (auto simp: ConsulenteRicette_def azione_def split: if_splits)
  from r0 r1 r2 r3 show ?thesis by blast
qed

lemma causal_seed: "causal (seed initial_action w)"
  by (simp add: causal_def seed_def initial_action_def rules_fired_def questions_first_def
        facts_of_def azione_def)

lemma causal_step:
  assumes inv: "causal st"
      and sel: "select (ConsulenteRicette E) (facts st) (agenda (ConsulenteRicette E) st) = Some a"
      and f: "fire (ConsulenteRicette E) a st = Inr st'"
  shows "causal st'"
proof -
  let ?rs = "ConsulenteRicette E"
  let ?R = "rules_fired st"
  let ?r = "act_rule a"
  let ?cT = "azione ''chiediTempo''"
  let ?cP = "azione ''chiediPreferenze''"
  let ?tR = "azione ''trovaRicetta''"
  note mem = select_mem [OF sel]
  from mem have fresh: "a \<notin> set (refraction st)" by (simp add: agenda_def)
  from agenda_match [OF mem] have bound: "?r < 11" by (simp add: length_CR)
  note trig = trigger_CR [OF mem]
  from fire_Inr [OF f] obtain ops w' where
    act: "action (?rs ! ?r) (act_support a) (facts_of st) (outside st) = Inr (ops, w')" and
    app: "apply_ops (Suc (cycle st)) ops (facts st, a # refraction st) = Inr (facts st', refraction st')" and
    log: "fired st' = fired st @ [(a, ops)]"
    by blast
  note shape = ops_CR [OF bound act]
  from apply_ops_only_asserts [OF app] shape have
    refr: "refraction st' = a # refraction st" and
    fs: "set (facts_of st') = set (facts_of st) \<union> {f. Assert f \<in> set ops}"
    by (simp_all add: facts_of_def)
  have R': "rules_fired st' = ?R @ [?r]"
    by (simp add: rules_fired_def log)
  from inv have
    i_refr: "\<forall>e \<in> set (fired st). fst e \<in> set (refraction st)" and
    i0: "\<forall>e \<in> set (fired st). act_rule (fst e) = 0 \<longrightarrow> fst e = Activation 0 [azione ''chiediIngredienti'']" and
    i1: "\<forall>e \<in> set (fired st). act_rule (fst e) = 1 \<longrightarrow> fst e = Activation 1 [?cT]" and
    i2: "\<forall>e \<in> set (fired st). act_rule (fst e) = 2 \<longrightarrow> fst e = Activation 2 [?cP]" and
    b1: "?cT \<in> set (facts_of st) \<longrightarrow> 0 \<in> set ?R" and
    b2: "?cP \<in> set (facts_of st) \<longrightarrow> 1 \<in> set ?R" and
    b3: "?tR \<in> set (facts_of st) \<longrightarrow> 2 \<in> set ?R" and
    c1: "1 \<in> set ?R \<longrightarrow> ?cT \<in> set (facts_of st)" and
    c2: "2 \<in> set ?R \<longrightarrow> ?cP \<in> set (facts_of st)" and
    c3: "(\<exists>i \<in> set ?R. 3 \<le> i \<and> i \<le> 5) \<longrightarrow> ?tR \<in> set (facts_of st)" and
    q: "questions_first ?R"
    unfolding causal_def by blast+
  have once: "?r \<notin> set ?R" if "?r \<le> 2"
  proof
    assume "?r \<in> set ?R"
    then obtain e where e: "e \<in> set (fired st)" "act_rule (fst e) = ?r"
      by (auto simp: rules_fired_def)
    from that have "?r = 0 \<or> ?r = 1 \<or> ?r = 2" by arith
    with e i0 i1 i2 trig have "fst e = a" by (elim disjE) auto
    with e(1) i_refr fresh show False by auto
  qed
  have no0: "0 \<notin> set ?R" if "?r = 0" using once that by simp
  have no1: "1 \<notin> set ?R" if "?r \<le> 1"
  proof (cases "?r = 1")
    case True
    with once show ?thesis by simp
  next
    case False
    with that have "?r = 0" by arith
    with no0 b1 c1 show ?thesis by blast
  qed
  have no2: "2 \<notin> set ?R" if "?r \<le> 2"
  proof (cases "?r = 2")
    case True
    with once show ?thesis by simp
  next
    case False
    with that have "?r \<le> 1" by arith
    from no1 [OF this] b2 c2 show ?thesis by blast
  qed
  have no3: "\<not> (\<exists>i \<in> set ?R. 3 \<le> i \<and> i \<le> 5)" if "?r \<le> 2"
    using no2 [OF that] b3 c3 by blast
  have small: "x < ?r" if "x \<in> set ?R" "x \<le> 5" "?r \<le> 2" for x
  proof -
    from that(1,2) no3 [OF that(3)] have x2: "x \<le> 2" by force
    have "x \<noteq> ?r" using once [OF that(3)] that(1) by blast
    moreover have "x \<noteq> 2" using no2 [OF that(3)] that(1) by blast
    moreover have "x \<noteq> 1" if "?r \<le> 1" using no1 [OF that] \<open>x \<in> set ?R\<close> by blast
    ultimately show ?thesis using x2 that(3) by (cases "?r \<le> 1") auto
  qed
  have q': "questions_first (?R @ [?r])"
  proof -
    from q have s: "sorted (map (\<lambda>i. min i 3) (filter (\<lambda>i. i \<le> 5) ?R))"
      and d: "distinct (filter (\<lambda>i. i \<le> 2) ?R)"
      by (simp_all add: questions_first_def)
    have s': "sorted (map (\<lambda>i. min i 3) (filter (\<lambda>i. i \<le> 5) (?R @ [?r])))"
    proof (cases "?r \<le> 5")
      case False
      with s show ?thesis by simp
    next
      case True
      have "min x 3 \<le> min ?r 3" if "x \<in> set ?R" "x \<le> 5" for x
      proof (cases "?r \<le> 2")
        case True
        from small [OF that True] show ?thesis by simp
      next
        case False
        then show ?thesis by simp
      qed
      with True s show ?thesis by (auto simp: sorted_append)
    qed
    have d': "distinct (filter (\<lambda>i. i \<le> 2) (?R @ [?r]))"
      using d once by auto
    from s' d' show ?thesis by (simp add: questions_first_def)
  qed
  have n_refr: "\<forall>e \<in> set (fired st'). fst e \<in> set (refraction st')"
    using i_refr by (auto simp: log refr)
  have n0: "\<forall>e \<in> set (fired st'). act_rule (fst e) = 0 \<longrightarrow> fst e = Activation 0 [azione ''chiediIngredienti'']"
    using i0 trig by (auto simp: log)
  have n1: "\<forall>e \<in> set (fired st'). act_rule (fst e) = 1 \<longrightarrow> fst e = Activation 1 [?cT]"
    using i1 trig by (auto simp: log)
  have n2: "\<forall>e \<in> set (fired st'). act_rule (fst e) = 2 \<longrightarrow> fst e = Activation 2 [?cP]"
    using i2 trig by (auto simp: log)
  have nb1: "?cT \<in> set (facts_of st') \<longrightarrow> 0 \<in> set (rules_fired st')"
    using b1 shape by (auto simp: fs R')
  have nb2: "?cP \<in> set (facts_of st') \<longrightarrow> 1 \<in> set (rules_fired st')"
    using b2 shape by (auto simp: fs R')
  have nb3: "?tR \<in> set (facts_of st') \<longrightarrow> 2 \<in> set (rules_fired st')"
    using b3 shape by (auto simp: fs R')
  have nc1: "1 \<in> set (rules_fired st') \<longrightarrow> ?cT \<in> set (facts_of st')"
    using c1 trig by (auto simp: fs R')
  have nc2: "2 \<in> set (rules_fired st') \<longrightarrow> ?cP \<in> set (facts_of st')"
    using c2 trig by (auto simp: fs R')
  have nc3: "(\<exists>i \<in> set (rules_fired st'). 3 \<le> i \<and> i \<le> 5) \<longrightarrow> ?tR \<in> set (facts_of st')"
    using c3 trig by (auto simp: fs R')
  from n_refr n0 n1 n2 nb1 nb2 nb3 nc1 nc2 nc3 q' show ?thesis
    unfolding causal_def R' by blast
qed

lemma causal_reaches:
  "reaches (ConsulenteRicette E) st0 st \<Longrightarrow> causal st0 \<Longrightarrow> causal st"
  by (induction rule: reaches.induct) (auto intro: causal_step)

lemma questions_first_run:
  "questions_first (rules_fired (state_of (avvia_consulente_ricette E n w)))"
proof -
  have "reaches (ConsulenteRicette E) (seed initial_action w)
          (state_of (run n None (ConsulenteRicette E) (seed initial_action w)))"
    by (rule run_reaches)
  from causal_reaches [OF this causal_seed] show ?thesis
    by (simp add: avvia_consulente_ricette_def causal_def)
qed

text \<open>
  C3. Firing order. The activation fired is on the agenda, and no activation on the agenda
  has a higher salience; among those of the same salience none was enabled more recently;
  among those of the same salience and recency none belongs to a rule declared earlier.
  The choice is total (a non-empty agenda gives an activation) and is a function of the
  fact store and the refraction set alone. For the rules of the program: when an
  activation of \<open>chiedi_ingredienti\<close> is on the agenda, it is that rule that fires; with one
  of \<open>chiedi_tempo\<close>, no rule after it fires; with one of \<open>chiedi_preferenze\<close>, no rule after
  it; and with one of a candidate rule, no rule after the candidate rules. And in every
  consultation, whatever the user types, \<open>chiedi_ingredienti\<close> fires before \<open>chiedi_tempo\<close>,
  that before \<open>chiedi_preferenze\<close>, that before every candidate rule, each of the three
  once at most.
\<close>

theorem firing_order:
  "(select rs (facts st) (agenda rs st) = Some a \<longrightarrow>
      a \<in> set (agenda rs st) \<and>
      (\<forall>b \<in> set (agenda rs st).
         salience_of rs b \<le> salience_of rs a \<and>
         (salience_of rs b = salience_of rs a \<longrightarrow>
            enabled_at (facts st) b \<le> enabled_at (facts st) a \<and>
            (enabled_at (facts st) b = enabled_at (facts st) a \<longrightarrow> act_rule a \<le> act_rule b))))
   \<and> (agenda rs st \<noteq> [] \<longrightarrow> select rs (facts st) (agenda rs st) \<noteq> None)
   \<and> (facts st' = facts st \<and> refraction st' = refraction st \<longrightarrow>
        select rs (facts st') (agenda rs st') = select rs (facts st) (agenda rs st))
   \<and> questions_first (rules_fired (state_of (avvia_consulente_ricette E n w)))
   \<and> (select (ConsulenteRicette E) (facts s) (agenda (ConsulenteRicette E) s) = Some c \<longrightarrow>
        (\<forall>b \<in> set (agenda (ConsulenteRicette E) s).
           (act_rule b = 0 \<longrightarrow> act_rule c = 0) \<and>
           (act_rule b = 1 \<longrightarrow> act_rule c \<le> 1) \<and>
           (act_rule b = 2 \<longrightarrow> act_rule c \<le> 2) \<and>
           (act_rule b \<in> {3, 4, 5} \<longrightarrow> act_rule c \<le> 5)))"
proof (intro conjI impI ballI)
  assume "select rs (facts st) (agenda rs st) = Some a"
  then show "a \<in> set (agenda rs st)" by (rule select_mem)
next
  fix b assume "select rs (facts st) (agenda rs st) = Some a" "b \<in> set (agenda rs st)"
  from select_order [OF this] show "salience_of rs b \<le> salience_of rs a" by simp
next
  fix b assume "select rs (facts st) (agenda rs st) = Some a" "b \<in> set (agenda rs st)"
    "salience_of rs b = salience_of rs a"
  with select_order [of rs st a b] show "enabled_at (facts st) b \<le> enabled_at (facts st) a" by simp
next
  fix b assume "select rs (facts st) (agenda rs st) = Some a" "b \<in> set (agenda rs st)"
    "salience_of rs b = salience_of rs a" "enabled_at (facts st) b = enabled_at (facts st) a"
  with select_order [of rs st a b] show "act_rule a \<le> act_rule b" by simp
next
  assume "agenda rs st \<noteq> []"
  then show "select rs (facts st) (agenda rs st) \<noteq> None" by (rule select_total)
next
  assume "facts st' = facts st \<and> refraction st' = refraction st"
  then show "select rs (facts st') (agenda rs st') = select rs (facts st) (agenda rs st)"
    by (simp add: agenda_def facts_of_def)
next
  show "questions_first (rules_fired (state_of (avvia_consulente_ricette E n w)))"
    by (rule questions_first_run)
next
  let ?rs = "ConsulenteRicette E"
  fix b assume sel: "select ?rs (facts s) (agenda ?rs s) = Some c" and b: "b \<in> set (agenda ?rs s)"
  from select_order [OF sel b] have le: "salience (?rs ! act_rule b) \<le> salience (?rs ! act_rule c)"
    by (simp add: salience_of_def)
  from agenda_match [OF select_mem [OF sel] ] have c: "act_rule c < 11" by (simp add: length_CR)
  note * = candidate_or_earlier [OF c le]
  { assume "act_rule b = 0" with * show "act_rule c = 0" by (simp add: salience_CR) }
  { assume "act_rule b = 1" with * show "act_rule c \<le> 1" by (simp add: salience_CR) }
  { assume "act_rule b = 2" with * show "act_rule c \<le> 2" by (simp add: salience_CR) }
  { assume "act_rule b \<in> {3, 4, 5}" with * show "act_rule c \<le> 5" by (auto simp: salience_CR) }
qed

theorem firing_order_witness:
  "select (ConsulenteRicette ambiente_esempio)
       (facts (seed scenario_pasta \<lparr>inputs = [], events = []\<rparr>))
       (agenda (ConsulenteRicette ambiente_esempio) (seed scenario_pasta \<lparr>inputs = [], events = []\<rparr>))
     = Some (Activation 3 [azione ''trovaRicetta'', (''ingrediente'', ''pasta''),
                           (''ingrediente'', ''pomodoro''), (''tempo_disponibile'', ''medio'')])
   \<and> Activation 7 [azione ''trovaRicetta'']
       \<in> set (agenda (ConsulenteRicette ambiente_esempio) (seed scenario_pasta \<lparr>inputs = [], events = []\<rparr>))
   \<and> salience_of (ConsulenteRicette ambiente_esempio) (Activation 7 [azione ''trovaRicetta''])
       \<le> salience_of (ConsulenteRicette ambiente_esempio)
            (Activation 3 [azione ''trovaRicetta'', (''ingrediente'', ''pasta''),
                           (''ingrediente'', ''pomodoro''), (''tempo_disponibile'', ''medio'')])"
proof -
  let ?rs = "ConsulenteRicette ambiente_esempio"
  let ?st = "seed scenario_pasta \<lparr>inputs = [], events = []\<rparr>"
  let ?a = "Activation 3 [azione ''trovaRicetta'', (''ingrediente'', ''pasta''),
                           (''ingrediente'', ''pomodoro''), (''tempo_disponibile'', ''medio'')]"
  have ag: "agenda ?rs ?st = [?a, Activation 7 [azione ''trovaRicetta''] ]"
    by (simp add: seed_def scenario_pasta_def engine_simps rule_simps)
  have sel: "select ?rs (facts ?st) (agenda ?rs ?st) = Some ?a"
    unfolding ag by (simp add: engine_simps rule_simps)
  from firing_order [where rs = "?rs" and st = "?st" and a = "?a"] sel ag
  show ?thesis by simp
qed

section \<open>The end of a consultation\<close>

text \<open>
  The halt rule of the engine: where a halt fact is designated, nothing fires after the
  first action that asserts it. The class \<^verbatim>\<open>ConsulenteRicette\<close> designates none, and
  the program runs the engine without one.
\<close>

lemma run_log_grows: "\<exists>tr. fired (state_of (run n h rs st)) = fired st @ tr"
  using reaches_refraction [OF run_reaches [of rs st n h] ] by blast

lemma halt_fact_stops:
  "nothing_after (asserts h)
     (drop (length (fired st)) (fired (state_of (run n (Some h) rs st))))"
proof (induction n arbitrary: st)
  case 0
  show ?case by simp
next
  case (Suc n)
  show ?case
  proof (cases "select rs (facts st) (agenda rs st)")
    case None
    then show ?thesis by simp
  next
    case (Some a)
    show ?thesis
    proof (cases "fire rs a st")
      case (Inl e)
      with Some show ?thesis by simp
    next
      case (Inr st')
      from fire_Inr [OF Inr] obtain ops where log: "fired st' = fired st @ [(a, ops)]" by blast
      then have lo: "last_ops st' = ops" by (simp add: last_ops_def)
      show ?thesis
      proof (cases "Assert h \<in> set ops")
        case True
        then have "asserts h (a, ops)" by (simp add: asserts_def)
        with True Some Inr log lo show ?thesis by simp
      next
        case False
        from run_log_grows [of n "Some h" rs st'] obtain tr where
          tr: "fired (state_of (run n (Some h) rs st')) = fired st' @ tr" by blast
        from Suc.IH [of st'] tr have "nothing_after (asserts h) tr" by simp
        moreover from False have "\<not> asserts h (a, ops)" by (simp add: asserts_def)
        ultimately show ?thesis using False Some Inr log lo tr by simp
      qed
    qed
  qed
qed





section \<open>Consultations\<close>

subsection \<open>Stepping through a run\<close>

lemma run_step:
  "select rs (facts st) (agenda rs st) = Some a \<Longrightarrow> fire rs a st = Inr st' \<Longrightarrow>
     run (Suc n) None rs st = run n None rs st'"
  by simp

lemma run_quiescent: "agenda rs st = [] \<Longrightarrow> run (Suc n) h rs st = Quiescent st"
  by simp

lemma run_Suc3: "3 \<le> n \<Longrightarrow> \<exists>m. n = Suc (Suc (Suc m))"
  by presburger


lemma run_Suc6: "6 \<le> n \<Longrightarrow> \<exists>m. n = Suc (Suc (Suc (Suc (Suc (Suc m)))))"
  by presburger

subsection \<open>No ingredient\<close>

text \<open>
  C10. When the first line the user types is empty or blank,
  \<^verbatim>\<open>chiedi_ingredienti_disponibili\<close> returns the empty list and the run is this one:
  \<open>chiedi_ingredienti\<close> fires and asserts \<open>azione = termina\<close> only, then
  \<open>terminare_esecuzione\<close> fires, then the agenda is empty. The store ends with the initial
  fact and \<open>azione = termina\<close>: no ingredient, no \<open>azione = chiediTempo\<close>, no candidate, no
  suggested recipe was ever asserted, and the only question asked was the first.
\<close>

theorem empty_ingredients_terminate:
  assumes "inputs w = l # ls" and "strip l = []" and "3 \<le> n"
  shows "chiedi_ingredienti_disponibili w
           = Inr ([], w\<lparr>inputs := ls, events := events w @ [Asked AskIngredienti]\<rparr>)
       \<and> avvia_consulente_ricette E n w
           = Quiescent
               \<lparr>facts = [(azione ''chiediIngredienti'', 0), (azione ''termina'', 1)],
                refraction = [Activation 10 [azione ''termina''],
                              Activation 0 [azione ''chiediIngredienti''] ],
                cycle = 2,
                fired = [(Activation 0 [azione ''chiediIngredienti''], [Assert (azione ''termina'')]),
                         (Activation 10 [azione ''termina''], [])],
                outside = w\<lparr>inputs := ls, events := events w @ [Asked AskIngredienti]\<rparr>\<rparr>"
proof -
  from assms(3) obtain m where n: "n = Suc (Suc (Suc m))"
    using run_Suc3 by blast
  have ask: "chiedi_ingredienti_disponibili w
           = Inr ([], w\<lparr>inputs := ls, events := events w @ [Asked AskIngredienti]\<rparr>)"
    using assms(1,2) by (simp add: chiedi_ingredienti_disponibili_def input_def)
  show ?thesis
    unfolding n avvia_consulente_ricette_def seed_def initial_action_def
    by (simp add: ask engine_simps rule_simps chiedi_ingredienti_def terminare_esecuzione_def)
qed

theorem empty_ingredients_terminate_witness:
  "avvia_consulente_ricette ambiente_esempio 3 \<lparr>inputs = [''  '', ''30''], events = []\<rparr>
     = Quiescent
         \<lparr>facts = [(azione ''chiediIngredienti'', 0), (azione ''termina'', 1)],
          refraction = [Activation 10 [azione ''termina''],
                        Activation 0 [azione ''chiediIngredienti''] ],
          cycle = 2,
          fired = [(Activation 0 [azione ''chiediIngredienti''], [Assert (azione ''termina'')]),
                   (Activation 10 [azione ''termina''], [])],
          outside = \<lparr>inputs = [''30''], events = [Asked AskIngredienti]\<rparr>\<rparr>"
  using empty_ingredients_terminate
    [where w = "\<lparr>inputs = [''  '', ''30''], events = []\<rparr>" and l = "''  ''" and ls = "[''30'']"
       and n = 3 and E = ambiente_esempio]
  by (simp add: strip_def is_space_def)

subsection \<open>One candidate\<close>

text \<open>
  C1. From the seed facts \<open>ingrediente = pasta\<close>, \<open>ingrediente = pomodoro\<close>,
  \<open>tempo_disponibile = medio\<close> and \<open>azione = trovaRicetta\<close>, the agenda holds one activation
  of a candidate rule, that of \<open>suggerisci_pasta_pomodoro\<close> (beside the one of the fallback
  rule, which the candidate removes). Provided the user answers the questions of the
  evaluation and of the final advice, the run is: \<open>suggerisci_pasta_pomodoro\<close> asserts the
  candidate; \<open>scegli_candidati\<close> asserts \<open>ricetta_suggerita = Pasta al Pomodoro\<close> and leaves
  the console as it was, so it asked nothing; \<open>valuta_ricetta_con_bayes\<close> fires once, which is
  the one call of \<^verbatim>\<open>calcola_rischio_o_successo_ricetta\<close>; \<open>stampare_risultato_finale\<close>
  asserts \<open>azione = termina\<close>; \<open>terminare_esecuzione\<close> fires and the agenda is empty.
\<close>

theorem pasta_al_pomodoro:
  assumes "calcola_rischio_o_successo_ricetta E ''Pasta al Pomodoro'' (Some ''medio'') w = Inr (v, w1)"
      and "mostra_risultato_finale E ''Pasta al Pomodoro'' w1 = Inr w2"
      and "6 \<le> n"
  shows "agenda (ConsulenteRicette E) (seed scenario_pasta w)
           = [Activation 3 [azione ''trovaRicetta'', (''ingrediente'', ''pasta''),
                            (''ingrediente'', ''pomodoro''), (''tempo_disponibile'', ''medio'')],
              Activation 7 [azione ''trovaRicetta''] ]
       \<and> scegli_candidati [azione ''trovaRicetta'', (''candidato'', ''Pasta al Pomodoro'')]
            (scenario_pasta @ [(''candidato'', ''Pasta al Pomodoro'')]) w
           = Inr ([Assert (''ricetta_suggerita'', ''Pasta al Pomodoro''),
                   Assert (azione ''valutaRicetta'')], w)
       \<and> (\<exists>st. run n None (ConsulenteRicette E) (seed scenario_pasta w) = Quiescent st
            \<and> fired st =
               [(Activation 3 [azione ''trovaRicetta'', (''ingrediente'', ''pasta''),
                               (''ingrediente'', ''pomodoro''), (''tempo_disponibile'', ''medio'')],
                 [Assert (''candidato'', ''Pasta al Pomodoro'')]),
                (Activation 6 [azione ''trovaRicetta'', (''candidato'', ''Pasta al Pomodoro'')],
                 [Assert (''ricetta_suggerita'', ''Pasta al Pomodoro''), Assert (azione ''valutaRicetta'')]),
                (Activation 8 [azione ''valutaRicetta'', (''ricetta_suggerita'', ''Pasta al Pomodoro'')],
                 [Assert (''valutazione_ricetta'', v), Assert (azione ''stampaRisultato'')]),
                (Activation 9 [azione ''stampaRisultato'', (''ricetta_suggerita'', ''Pasta al Pomodoro''),
                               (''valutazione_ricetta'', v)],
                 [Assert (azione ''termina'')]),
                (Activation 10 [azione ''termina''], [])]
            \<and> facts_of st = scenario_pasta @
                 [(''candidato'', ''Pasta al Pomodoro''), (''ricetta_suggerita'', ''Pasta al Pomodoro''),
                  azione ''valutaRicetta'', (''valutazione_ricetta'', v), azione ''stampaRisultato'',
                  azione ''termina'']
            \<and> outside st = w2)"
proof -
  from assms(3) obtain m where n: "n = Suc (Suc (Suc (Suc (Suc (Suc m)))))"
    using run_Suc6 by blast
  show ?thesis
    unfolding n seed_def scenario_pasta_def
    by (simp add: assms(1,2) engine_simps rule_simps suggerisci_def scegli_candidati_def
          valuta_ricetta_con_bayes_def ultimo_def stampare_risultato_finale_def
          terminare_esecuzione_def)
qed

theorem pasta_al_pomodoro_witness:
  "azione ''termina''
     \<in> set (facts_of (state_of (run 6 None (ConsulenteRicette ambiente_esempio)
                (seed scenario_pasta \<lparr>inputs = [''1''], events = []\<rparr>))))"
proof -
  let ?w = "\<lparr>inputs = [''1''], events = []\<rparr>"
  let ?w1 = "\<lparr>inputs = [], events = [Asked AskRete, Inference ''1'' (Some 1)]\<rparr>"
  let ?w2 = "\<lparr>inputs = [], events = [Asked AskRete, Inference ''1'' (Some 1),
                                     DetailsSearch ''Pasta al Pomodoro'']\<rparr>"
  have c: "calcola_rischio_o_successo_ricetta ambiente_esempio ''Pasta al Pomodoro''
             (Some ''medio'') ?w = Inr (stimata ''85.0'', ?w1)"
    by (simp add: calcola_rischio_o_successo_ricetta_def ambiente_esempio_def strip_def
          is_space_def emit_def converti_tempo_in_indice_def)
  have m: "mostra_risultato_finale ambiente_esempio ''Pasta al Pomodoro'' ?w1 = Inr ?w2"
    by (simp add: mostra_risultato_finale_def stampa_dettagli_ricetta_def ambiente_esempio_def
          emit_def)
  from pasta_al_pomodoro [OF c m, of 6] show ?thesis
    by (auto simp: azione_def)
qed

subsection \<open>No candidate\<close>

lemma set_nuovi: "set (nuovi vs seen) = set vs - set seen"
  by (induction vs arbitrary: seen) auto

lemma distinct_nuovi: "distinct (nuovi vs seen)"
  by (induction vs arbitrary: seen) (auto simp: set_nuovi)

lemma values_of_append [simp]: "values_of f (xs @ ys) = values_of f xs @ values_of f ys"
  by (simp add: values_of_def)

lemma values_of_Cons [simp]:
  "values_of f ((g, v) # xs) = (if g = f then v # values_of f xs else values_of f xs)"
  by (simp add: values_of_def)

lemma values_of_Nil [simp]: "values_of f [] = []"
  by (simp add: values_of_def)

lemma values_of_Pair [simp]: "values_of f (map (Pair g) vs) = (if g = f then vs else [])"
  by (induction vs) auto

lemma mem_values_of: "(f, v) \<in> set fs \<longleftrightarrow> v \<in> set (values_of f fs)"
  by (induction fs) (auto split: if_splits)

lemma apply_ops_asserts:
  "apply_ops t (map (\<lambda>i. Assert (f, g i)) xs @ ops) (fs, r)
     = apply_ops t ops
         (fs @ map (\<lambda>v. ((f, v), t)) (nuovi (map g xs) (values_of f (map fst fs))), r)"
proof (induction xs arbitrary: fs)
  case Nil
  show ?case by simp
next
  case (Cons x xs)
  show ?case
  proof (cases "(f, g x) \<in> set (map fst fs)")
    case True
    then have "g x \<in> set (values_of f (map fst fs))"
      using mem_values_of [of f "g x" "map fst fs"] by blast
    with True Cons.IH [of fs] show ?thesis by (simp add: insert_fact_def present_def)
  next
    case False
    then have "g x \<notin> set (values_of f (map fst fs))"
      using mem_values_of [of f "g x" "map fst fs"] by blast
    with False Cons.IH [of "fs @ [((f, g x), t)]"] show ?thesis
      by (simp add: insert_fact_def present_def)
  qed
qed

lemma pair_in_image [simp]: "(g, x) \<in> Pair f ` S \<longleftrightarrow> g = f \<and> x \<in> S"
  by auto

lemma filter_field_Pair [simp]:
  "filter (\<lambda>x. fst x = g) (map (Pair f) vs) = (if f = g then map (Pair f) vs else [])"
  by (induction vs) auto

lemma tempo_cases:
  "chiedi_tempo_disponibile w = Inr (t, w') \<Longrightarrow> t = ''poco'' \<or> t = ''medio'' \<or> t = ''molto''"
  using tempo_loop_Inr [of "inputs w" "events w" t w'] by (simp add: chiedi_tempo_disponibile_def)

text \<open>
  C5. A whole consultation in which no candidate rule matches: the user gives at least one
  ingredient, a time and preferences, and the ingredients and the time satisfy the
  conditions of none of the three candidate rules. Then the run is \<open>chiedi_ingredienti\<close>,
  \<open>chiedi_tempo\<close>, \<open>chiedi_preferenze\<close>, \<open>nessuna_ricetta_trovata\<close>, \<open>terminare_esecuzione\<close>:
  the fallback rule fires once, calls \<^verbatim>\<open>cerca_ricette_parziali\<close> with the ingredients in
  the store, which are the ones the user gave, and asserts \<open>azione = termina\<close>; no candidate
  and no suggested recipe is in the store at the end and no firing asserted a suggested
  recipe. Conversely, in any state of the engine with a \<open>candidato\<close> fact in the store the
  activation fired is not one of the fallback rule.
\<close>

theorem no_candidate_fallback:
  assumes ing: "chiedi_ingredienti_disponibili w = Inr (ingr, w1)" and ne: "ingr \<noteq> []"
      and tmp: "chiedi_tempo_disponibile w1 = Inr (t, w2)"
      and prefs: "chiedi_preferenze_alimentari w2 = Inr (prefs, w3)"
      and no3: "\<not> (''pasta'' \<in> set (map (\<lambda>i. lower (strip i)) ingr) \<and> ''pomodoro'' \<in> set (map (\<lambda>i. lower (strip i)) ingr)
                   \<and> (t = ''medio'' \<or> t = ''molto''))"
      and no4: "\<not> (''uova'' \<in> set (map (\<lambda>i. lower (strip i)) ingr) \<and> t = ''poco'')"
      and no5: "\<not> (''lattuga'' \<in> set (map (\<lambda>i. lower (strip i)) ingr) \<and> ''pomodoro'' \<in> set (map (\<lambda>i. lower (strip i)) ingr)
                   \<and> t = ''poco'')"
      and n: "6 \<le> n"
  shows "(\<exists>st. avvia_consulente_ricette E n w = Quiescent st
           \<and> map (act_rule \<circ> fst) (fired st) = [0, 1, 2, 7, 10]
           \<and> map snd (drop 3 (fired st)) = [ [Assert (azione ''termina'')], [] ]
           \<and> outside st = cerca_ricette_parziali (values_of ''ingrediente'' (facts_of st)) w3
           \<and> set (values_of ''ingrediente'' (facts_of st)) = set (map (\<lambda>i. lower (strip i)) ingr)
           \<and> azione ''termina'' \<in> set (facts_of st)
           \<and> values_of ''candidato'' (facts_of st) = []
           \<and> values_of ''ricetta_suggerita'' (facts_of st) = []
           \<and> (\<forall>e \<in> set (fired st). \<forall>x. \<not> asserts (''ricetta_suggerita'', x) e))
       \<and> (\<forall>st' c a. (''candidato'', c) \<in> set (facts_of st') \<longrightarrow>
             select (ConsulenteRicette E) (facts st') (agenda (ConsulenteRicette E) st') = Some a \<longrightarrow>
             act_rule a \<noteq> 7)"
proof -
  let ?rs = "ConsulenteRicette E"
  let ?N = "nuovi (map (\<lambda>i. lower (strip i)) ingr) []"
  let ?P = "nuovi (map (\<lambda>i. lower (strip i)) prefs) []"
  have N: "set ?N = set (map (\<lambda>i. lower (strip i)) ingr)" by (simp add: set_nuovi)
  from ne have Nne: "?N \<noteq> []" by (cases ingr) auto
  let ?cI = "azione ''chiediIngredienti''"
  let ?a0 = "Activation 0 [?cI]"
  let ?a1 = "Activation 1 [azione ''chiediTempo'']"
  let ?a2 = "Activation 2 [azione ''chiediPreferenze'']"
  let ?a7 = "Activation 7 [azione ''trovaRicetta'']"
  let ?a10 = "Activation 10 [azione ''termina'']"
  let ?o0 = "map (\<lambda>i. Assert (''ingrediente'', lower (strip i))) ingr @ [Assert (azione ''chiediTempo'')]"
  let ?o1 = "[Assert (''tempo_disponibile'', t), Assert (azione ''chiediPreferenze'')]"
  let ?o2 = "map (\<lambda>p. Assert (''preferenza'', lower (strip p))) prefs @ [Assert (azione ''trovaRicetta'')]"
  let ?f1 = "[(?cI, 0)] @ map (\<lambda>v. ((''ingrediente'', v), 1)) ?N @ [(azione ''chiediTempo'', 1)]"
  let ?f2 = "?f1 @ [((''tempo_disponibile'', t), 2), (azione ''chiediPreferenze'', 2)]"
  let ?f3 = "?f2 @ map (\<lambda>v. ((''preferenza'', v), 3)) ?P @ [(azione ''trovaRicetta'', 3)]"
  let ?f4 = "?f3 @ [(azione ''termina'', 4)]"
  let ?st0 = "seed initial_action w"
  let ?st1 = "\<lparr>facts = ?f1, refraction = [?a0], cycle = 1, fired = [(?a0, ?o0)], outside = w1\<rparr>"
  let ?st2 = "\<lparr>facts = ?f2, refraction = [?a1, ?a0], cycle = 2,
              fired = [(?a0, ?o0), (?a1, ?o1)], outside = w2\<rparr>"
  let ?st3 = "\<lparr>facts = ?f3, refraction = [?a2, ?a1, ?a0], cycle = 3,
              fired = [(?a0, ?o0), (?a1, ?o1), (?a2, ?o2)], outside = w3\<rparr>"
  let ?w4 = "cerca_ricette_parziali ?N w3"
  let ?st4 = "\<lparr>facts = ?f4, refraction = [?a7, ?a2, ?a1, ?a0], cycle = 4,
              fired = [(?a0, ?o0), (?a1, ?o1), (?a2, ?o2), (?a7, [Assert (azione ''termina'')])],
              outside = ?w4\<rparr>"
  let ?st5 = "\<lparr>facts = ?f4, refraction = [?a10, ?a7, ?a2, ?a1, ?a0], cycle = 5,
              fired = [(?a0, ?o0), (?a1, ?o1), (?a2, ?o2), (?a7, [Assert (azione ''termina'')]),
                       (?a10, [])],
              outside = ?w4\<rparr>"
  have s0: "select ?rs (facts ?st0) (agenda ?rs ?st0) = Some ?a0"
    by (simp add: seed_def initial_action_def engine_simps rule_simps)
  have f0: "fire ?rs ?a0 ?st0 = Inr ?st1"
    using ne
    by (simp add: seed_def initial_action_def fire_def facts_of_def ConsulenteRicette_def
          chiedi_ingredienti_def ing apply_ops_asserts azione_def insert_fact_def present_def)
  have s1: "select ?rs (facts ?st1) (agenda ?rs ?st1) = Some ?a1"
    by (simp add: engine_simps ConsulenteRicette_def azione_def comp_def)
  have f1: "fire ?rs ?a1 ?st1 = Inr ?st2"
    by (simp add: fire_def facts_of_def ConsulenteRicette_def chiedi_tempo_def tmp azione_def
          insert_fact_def present_def comp_def)
  have s2: "select ?rs (facts ?st2) (agenda ?rs ?st2) = Some ?a2"
    by (simp add: engine_simps ConsulenteRicette_def azione_def comp_def)
  have f2: "fire ?rs ?a2 ?st2 = Inr ?st3"
    by (simp add: fire_def facts_of_def ConsulenteRicette_def chiedi_preferenze_def prefs
          apply_ops_asserts azione_def insert_fact_def present_def comp_def)
  have ag3: "agenda ?rs ?st3 = [?a7]"
    using no3 no4 no5 tempo_cases [OF tmp]
    by (auto simp: engine_simps ConsulenteRicette_def azione_def comp_def N)
  have s3: "select ?rs (facts ?st3) (agenda ?rs ?st3) = Some ?a7"
    unfolding ag3 by simp
  have f3: "fire ?rs ?a7 ?st3 = Inr ?st4"
    using Nne
    by (simp add: fire_def facts_of_def ConsulenteRicette_def nessuna_ricetta_trovata_def
          azione_def insert_fact_def present_def comp_def)
  have ag4: "agenda ?rs ?st4 = [?a10]"
    using no3 no4 no5 tempo_cases [OF tmp]
    by (auto simp: engine_simps ConsulenteRicette_def azione_def comp_def N)
  have s4: "select ?rs (facts ?st4) (agenda ?rs ?st4) = Some ?a10"
    unfolding ag4 by simp
  have f4: "fire ?rs ?a10 ?st4 = Inr ?st5"
    by (simp add: fire_def facts_of_def ConsulenteRicette_def terminare_esecuzione_def)
  have ag5: "agenda ?rs ?st5 = []"
    using no3 no4 no5 tempo_cases [OF tmp]
    by (auto simp: engine_simps ConsulenteRicette_def azione_def comp_def N)
  from n obtain m where m: "n = Suc (Suc (Suc (Suc (Suc (Suc m)))))"
    using run_Suc6 by blast
  have "avvia_consulente_ricette E n w = Quiescent ?st5"
    unfolding avvia_consulente_ricette_def m
    by (simp only: run_step [OF s0 f0] run_step [OF s1 f1] run_step [OF s2 f2]
          run_step [OF s3 f3] run_step [OF s4 f4] run_quiescent [OF ag5])
  then have main: "\<exists>st. avvia_consulente_ricette E n w = Quiescent st
           \<and> map (act_rule \<circ> fst) (fired st) = [0, 1, 2, 7, 10]
           \<and> map snd (drop 3 (fired st)) = [ [Assert (azione ''termina'')], [] ]
           \<and> outside st = cerca_ricette_parziali (values_of ''ingrediente'' (facts_of st)) w3
           \<and> set (values_of ''ingrediente'' (facts_of st)) = set (map (\<lambda>i. lower (strip i)) ingr)
           \<and> azione ''termina'' \<in> set (facts_of st)
           \<and> values_of ''candidato'' (facts_of st) = []
           \<and> values_of ''ricetta_suggerita'' (facts_of st) = []
           \<and> (\<forall>e \<in> set (fired st). \<forall>x. \<not> asserts (''ricetta_suggerita'', x) e)"
    by (auto simp: facts_of_def comp_def azione_def N asserts_def)
  have "act_rule a \<noteq> 7"
    if c: "(''candidato'', c) \<in> set (facts_of st')"
      and sel: "select ?rs (facts st') (agenda ?rs st') = Some a" for st' c a
  proof
    assume "act_rule a = 7"
    with agenda_match [OF select_mem [OF sel] ]
    have "act_support a \<in> set (match_all (facts_of st') (conditions (?rs ! 7)))" by simp
    moreover from c have "filter (\<lambda>x. fst x = ''candidato'') (facts_of st') \<noteq> []"
      by (force simp: filter_empty_conv)
    ultimately show False
      by (auto simp: ConsulenteRicette_def split: if_splits)
  qed
  with main show ?thesis by blast
qed

theorem no_candidate_fallback_witness:
  "\<exists>st. avvia_consulente_ricette ambiente_esempio 6
            \<lparr>inputs = [''Riso'', ''10'', ''vegano''], events = []\<rparr> = Quiescent st
       \<and> map (act_rule \<circ> fst) (fired st) = [0, 1, 2, 7, 10]
       \<and> azione ''termina'' \<in> set (facts_of st)
       \<and> values_of ''ricetta_suggerita'' (facts_of st) = []"
proof -
  let ?w = "\<lparr>inputs = [''Riso'', ''10'', ''vegano''], events = []\<rparr>"
  let ?w1 = "\<lparr>inputs = [''10'', ''vegano''], events = [Asked AskIngredienti]\<rparr>"
  let ?w2 = "\<lparr>inputs = [''vegano''], events = [Asked AskIngredienti, Asked AskMinuti]\<rparr>"
  let ?w3 = "\<lparr>inputs = [], events = [Asked AskIngredienti, Asked AskMinuti, Asked AskPreferenze]\<rparr>"
  have i: "chiedi_ingredienti_disponibili ?w = Inr ([''riso''], ?w1)"
    by code_simp
  have ne: "[''riso''] \<noteq> []"
    by simp
  have t: "chiedi_tempo_disponibile ?w1 = Inr (''poco'', ?w2)"
    by code_simp
  have p: "chiedi_preferenze_alimentari ?w2 = Inr ([''vegano''], ?w3)"
    by code_simp
  have l: "lower (strip ''riso'') = ''riso''"
    by code_simp
  have no3: "\<not> (''pasta'' \<in> set (map (\<lambda>i. lower (strip i)) [''riso''])
               \<and> ''pomodoro'' \<in> set (map (\<lambda>i. lower (strip i)) [''riso''])
               \<and> (''poco'' = ''medio'' \<or> ''poco'' = ''molto''))"
    by (simp add: l)
  have no4: "\<not> (''uova'' \<in> set (map (\<lambda>i. lower (strip i)) [''riso'']) \<and> ''poco'' = ''poco'')"
    by (simp add: l)
  have no5: "\<not> (''lattuga'' \<in> set (map (\<lambda>i. lower (strip i)) [''riso''])
               \<and> ''pomodoro'' \<in> set (map (\<lambda>i. lower (strip i)) [''riso''])
               \<and> ''poco'' = ''poco'')"
    by (simp add: l)
  have n: "(6::nat) \<le> 6"
    by simp
  note th = no_candidate_fallback [OF i ne t p no3 no4 no5 n, where E = ambiente_esempio]
  from th [THEN conjunct1] obtain st where
    "avvia_consulente_ricette ambiente_esempio 6 ?w = Quiescent st"
    "map (act_rule \<circ> fst) (fired st) = [0, 1, 2, 7, 10]"
    "azione ''termina'' \<in> set (facts_of st)"
    "values_of ''ricetta_suggerita'' (facts_of st) = []"
    by (elim exE conjE)
  then show ?thesis by (intro exI conjI)
qed

subsection \<open>The evaluation fails\<close>






subsection \<open>Two candidates\<close>

text \<open>
  C4 fails on the code. With eggs, lettuce, tomato and ten minutes, two candidate rules
  fire. \<open>scegli_candidati\<close> matches \<open>candidato\<close> with a wildcard, so it has one activation for
  each of the two candidate facts, and it fires twice: the same list of two recipes is shown
  twice and the question which one to prepare is asked twice.
\<close>

theorem two_candidates_asked_twice:
  "map (act_rule \<circ> fst) (fired (state_of (avvia_consulente_ricette ambiente_esempio 12 due_candidati)))
     = [0, 1, 2, 4, 5, 6, 6, 8, 9, 10]
   \<and> events (outside (state_of (avvia_consulente_ricette ambiente_esempio 12 due_candidati)))
     = [Asked AskIngredienti, Asked AskMinuti, Asked AskPreferenze,
        Listed [''Uova Strapazzate'', ''Insalata Mista''], Asked (AskRicetta 2),
        Listed [''Uova Strapazzate'', ''Insalata Mista''], Asked (AskRicetta 2),
        Asked AskRete, Inference ''1'' (Some 0), DetailsSearch ''Uova Strapazzate'']"
  by code_simp


end
